theory Spec2Isabelle
  imports Complex_Main "HOL-Library.AList"
begin

section \<open>JavaScript values\<close>

text \<open>
  The values the library handles: property values, transition objects, variants.
  An object is its list of own properties in insertion order; a function of an
  external library is kept as its name and the arguments it was built from.
  Numbers are the finite ones, as reals; \<open>NaN\<close> is a value of its own.
\<close>

datatype jsval =
    Undefined
  | Null
  | Bool bool
  | Num real
  | NaN
  | Str string
  | Arr "jsval list"
  | Obj "(string \<times> jsval) list"
  | Func string "jsval list"

type_synonym jsobj = "(string \<times> jsval) list"

text \<open>Truthiness, as \<open>||\<close>, \<open>!\<close> and \<open>if\<close> see it.\<close>

fun truthy :: "jsval \<Rightarrow> bool" where
  "truthy Undefined = False"
| "truthy Null = False"
| "truthy (Bool b) = b"
| "truthy (Num r) = (r \<noteq> 0)"
| "truthy NaN = False"
| "truthy (Str s) = (s \<noteq> [])"
| "truthy (Arr xs) = True"
| "truthy (Obj kvs) = True"
| "truthy (Func f args) = True"

text \<open>\<open>a || b\<close>\<close>

definition js_or :: "jsval \<Rightarrow> jsval \<Rightarrow> jsval" where
  "js_or a b = (if truthy a then a else b)"

text \<open>Reading an own property of an object: \<open>o[k]\<close>, \<open>undefined\<close> when absent.\<close>

definition obj_get :: "jsobj \<Rightarrow> string \<Rightarrow> jsval" where
  "obj_get kvs k = (case map_of kvs k of None \<Rightarrow> Undefined | Some v \<Rightarrow> v)"

text \<open>
  \<open>v.k\<close> on any value, for the named keys the library reads (\<open>from\<close>, \<open>type\<close>,
  \<open>onUpdate\<close>, ...): only an object carries them.
\<close>

definition js_prop :: "jsval \<Rightarrow> string \<Rightarrow> jsval" where
  "js_prop v k = (case v of Obj kvs \<Rightarrow> obj_get kvs k | _ \<Rightarrow> Undefined)"

text \<open>\<open>o[k] = v\<close>: an existing key keeps its place, a new one goes last.\<close>

definition obj_set :: "jsobj \<Rightarrow> string \<Rightarrow> jsval \<Rightarrow> jsobj" where
  "obj_set kvs k v = AList.update k v kvs"

text \<open>The spread \<open>{...a, ...b}\<close>.\<close>

definition spread :: "jsobj \<Rightarrow> jsobj \<Rightarrow> jsobj" where
  "spread a b = foldl (\<lambda>acc (k, v). obj_set acc k v) a b"

text \<open>Rest destructuring \<open>{k1, k2, ...rest}\<close>: the object without the named keys.\<close>

definition without :: "string list \<Rightarrow> jsobj \<Rightarrow> jsobj" where
  "without ks kvs = filter (\<lambda>(k, v). k \<notin> set ks) kvs"

definition isArray :: "jsval \<Rightarrow> bool" where
  "isArray v = (case v of Arr xs \<Rightarrow> True | _ \<Rightarrow> False)"

definition isNumber :: "jsval \<Rightarrow> bool" where
  "isNumber v = (case v of Num r \<Rightarrow> True | NaN \<Rightarrow> True | _ \<Rightarrow> False)"

definition isString :: "jsval \<Rightarrow> bool" where
  "isString v = (case v of Str s \<Rightarrow> True | _ \<Rightarrow> False)"

section \<open>Default transitions\<close>

definition isKeyframesTarget :: "jsval \<Rightarrow> bool" where
  "isKeyframesTarget v = isArray v"

definition underDampedSpring :: "jsval \<Rightarrow> jsobj" where
  "underDampedSpring to =
     [(''type'', Str ''spring''), (''stiffness'', Num 500), (''damping'', Num 25),
      (''restDelta'', Num 0.5), (''restSpeed'', Num 10)]"

definition criticallyDampedSpring :: "jsval \<Rightarrow> jsobj" where
  "criticallyDampedSpring to =
     [(''type'', Str ''spring''), (''stiffness'', Num 550),
      (''damping'', Num (if to = Num 0 then 2 * sqrt 550 else 30)),
      (''restDelta'', Num 0.01), (''restSpeed'', Num 10)]"

definition overDampedSpring :: "jsval \<Rightarrow> jsobj" where
  "overDampedSpring to =
     [(''type'', Str ''spring''), (''stiffness'', Num 550),
      (''damping'', Num (if to = Num 0 then 100 else 30)),
      (''restDelta'', Num 0.01), (''restSpeed'', Num 10)]"

definition linearTween :: "jsval \<Rightarrow> jsobj" where
  "linearTween to =
     [(''type'', Str ''keyframes''), (''ease'', Str ''linear''), (''duration'', Num 300)]"

definition keyframes :: "jsval \<Rightarrow> jsobj" where
  "keyframes vals =
     [(''type'', Str ''keyframes''), (''duration'', Num 800), (''values'', vals)]"

text \<open>The table \<open>defaultTransitions\<close>, as the factories it names.\<close>

definition defaultTransitions :: "(string \<times> (jsval \<Rightarrow> jsobj)) list" where
  "defaultTransitions =
     [(''default'', overDampedSpring),
      (''x'', underDampedSpring), (''y'', underDampedSpring), (''z'', underDampedSpring),
      (''rotate'', underDampedSpring), (''rotateX'', underDampedSpring),
      (''rotateY'', underDampedSpring), (''rotateZ'', underDampedSpring),
      (''scaleX'', criticallyDampedSpring), (''scaleY'', criticallyDampedSpring),
      (''scale'', criticallyDampedSpring),
      (''backgroundColor'', linearTween), (''color'', linearTween),
      (''opacity'', linearTween)]"

definition getDefaultTransition :: "string \<Rightarrow> jsval \<Rightarrow> jsobj" where
  "getDefaultTransition valueKey to =
     (let transitionFactory =
            (if isKeyframesTarget to then keyframes
             else (case map_of defaultTransitions valueKey of
                     Some f \<Rightarrow> f
                   | None \<Rightarrow> overDampedSpring))
      in spread [(''to'', to)] (transitionFactory to))"

section \<open>Transition options for the tween engine\<close>

text \<open>The names of \<open>easingLookup\<close>; each stands for the engine's function of that name.\<close>

definition easingNames :: "string list" where
  "easingNames =
     [''linear'', ''easeIn'', ''easeInOut'', ''easeOut'', ''circIn'', ''circInOut'',
      ''circOut'', ''backIn'', ''backInOut'', ''backOut'', ''anticipate'', ''bounceIn'',
      ''bounceInOut'', ''bounceOut'']"

definition nth_or_undefined :: "jsval list \<Rightarrow> nat \<Rightarrow> jsval" where
  "nth_or_undefined xs i = (if i < length xs then xs ! i else Undefined)"

definition easingDefinitionToFunction :: "jsval \<Rightarrow> jsval" where
  "easingDefinitionToFunction d =
     (case d of
        Arr xs \<Rightarrow> Func ''cubicBezier''
                   [nth_or_undefined xs 0, nth_or_undefined xs 1,
                    nth_or_undefined xs 2, nth_or_undefined xs 3]
      | Str s \<Rightarrow> (if s \<in> set easingNames then Func s [] else Undefined)
      | _ \<Rightarrow> d)"

definition isEasingArray :: "jsval \<Rightarrow> bool" where
  "isEasingArray ease =
     (case ease of Arr xs \<Rightarrow> \<not> isNumber (nth_or_undefined xs 0) | _ \<Rightarrow> False)"

text \<open>Unary minus on a delay; a delay that is not a number is outside the model.\<close>

definition js_neg :: "jsval \<Rightarrow> jsval" where
  "js_neg v = (case v of Num r \<Rightarrow> Num (- r) | Bool True \<Rightarrow> Num (- 1) | _ \<Rightarrow> NaN)"

definition convertTransitionToAnimationOptions :: "jsobj \<Rightarrow> jsobj" where
  "convertTransitionToAnimationOptions tr =
     (let ease = obj_get tr ''ease'';
          times = obj_get tr ''times'';
          delay = obj_get tr ''delay'';
          options0 = without [''ease'', ''times'', ''delay''] tr;
          options1 = (if truthy times then obj_set options0 ''offset'' times else options0);
          options2 = (if truthy ease
                      then obj_set options1 ''ease''
                             (if isEasingArray ease
                              then (case ease of
                                      Arr xs \<Rightarrow> Arr (map easingDefinitionToFunction xs)
                                    | _ \<Rightarrow> ease)
                              else easingDefinitionToFunction ease)
                      else options1)
      in (if truthy delay then obj_set options2 ''elapsed'' (js_neg delay) else options2))"

definition isTransitionDefined :: "jsobj \<Rightarrow> bool" where
  "isTransitionDefined tr =
     (without [''delay'', ''repeat'', ''repeatType'', ''repeatDelay'', ''from''] tr \<noteq> [])"

definition hydrateKeyframes :: "jsobj \<Rightarrow> jsobj" where
  "hydrateKeyframes options =
     (case obj_get options ''to'' of
        Arr (Null # rest) \<Rightarrow> obj_set options ''to'' (Arr (obj_get options ''from'' # rest))
      | _ \<Rightarrow> options)"

definition getPopmotionAnimationOptions :: "jsobj \<Rightarrow> jsobj \<Rightarrow> string \<Rightarrow> jsobj" where
  "getPopmotionAnimationOptions transition options key =
     (let transition1 =
            (if isArray (obj_get options ''to'') \<and> \<not> truthy (obj_get transition ''duration'')
             then obj_set transition ''duration'' (Num 800) else transition);
          options1 = hydrateKeyframes options;
          transition2 =
            (if \<not> isTransitionDefined transition1
             then spread transition1 (getDefaultTransition key (obj_get options1 ''to''))
             else transition1)
      in spread options1 (convertTransitionToAnimationOptions transition2))"

section \<open>Reading numbers from strings\<close>

text \<open>
  \<open>parseFloat\<close> and \<open>Number\<close> on the decimal literals: an optional sign, digits,
  an optional fraction, an optional exponent. The literals \<open>Infinity\<close> and the
  hexadecimal, octal and binary forms are outside the model, as the non-finite numbers are.
\<close>

definition isWhite :: "char \<Rightarrow> bool" where
  "isWhite c = (c \<in> set [CHR '' '', CHR 0x09, CHR 0x0A, CHR 0x0B, CHR 0x0C, CHR 0x0D])"

definition isDigit :: "char \<Rightarrow> bool" where
  "isDigit c = (c \<in> set ''0123456789'')"

definition digitVal :: "char \<Rightarrow> nat" where
  "digitVal c = of_char c - 48"

definition digitsVal :: "string \<Rightarrow> nat" where
  "digitsVal ds = foldl (\<lambda>a c. 10 * a + digitVal c) 0 ds"

definition trim :: "string \<Rightarrow> string" where
  "trim s = rev (dropWhile isWhite (rev (dropWhile isWhite s)))"

definition readSign :: "string \<Rightarrow> bool \<times> string" where
  "readSign s =
     (case s of
        c # t \<Rightarrow> (if c = CHR ''-'' then (True, t) else if c = CHR ''+'' then (False, t)
                  else (False, s))
      | [] \<Rightarrow> (False, s))"

definition readExponent :: "string \<Rightarrow> (bool \<times> nat) \<times> string" where
  "readExponent s =
     (case s of
        c # t \<Rightarrow>
          (if c = CHR ''e'' \<or> c = CHR ''E''
           then (let (eneg, t1) = readSign t; ed = takeWhile isDigit t1
                 in if ed = [] then ((False, 0), s)
                    else ((eneg, digitsVal ed), dropWhile isDigit t1))
           else ((False, 0), s))
      | [] \<Rightarrow> ((False, 0), s))"

text \<open>The longest decimal literal that starts the string, and what follows it.\<close>

definition decimalPrefix :: "string \<Rightarrow> (real \<times> string) option" where
  "decimalPrefix s =
     (let (neg, s1) = readSign s;
          ip = takeWhile isDigit s1;
          s2 = dropWhile isDigit s1;
          (fp, s3) = (case s2 of
                        c # t \<Rightarrow> (if c = CHR ''.''
                                  then (takeWhile isDigit t, dropWhile isDigit t)
                                  else ([], s2))
                      | [] \<Rightarrow> ([], s2))
      in if ip = [] \<and> fp = [] then None
         else (let ((eneg, e), s4) = readExponent s3;
                   m = real (digitsVal ip) + real (digitsVal fp) / 10 ^ length fp;
                   v = (if eneg then m / 10 ^ e else m * 10 ^ e)
               in Some (if neg then - v else v, s4)))"

definition parseFloat_str :: "string \<Rightarrow> jsval" where
  "parseFloat_str s =
     (case decimalPrefix (dropWhile isWhite s) of None \<Rightarrow> NaN | Some (r, rest) \<Rightarrow> Num r)"

definition Number_str :: "string \<Rightarrow> jsval" where
  "Number_str s =
     (let t = trim s
      in if t = [] then Num 0
         else (case decimalPrefix t of
                 Some (r, rest) \<Rightarrow> (if rest = [] then Num r else NaN)
               | None \<Rightarrow> NaN))"

text \<open>
  \<open>parseFloat(v)\<close> reads the string of \<open>v\<close>. A number reads back as itself. The
  string of an array is its elements' strings joined by commas (the empty string for
  \<open>undefined\<close> and \<open>null\<close>), and a comma ends every numeric prefix, so an array reads
  as its first element does. The strings of the other values start with no number.
\<close>

fun parseFloat :: "jsval \<Rightarrow> jsval" where
  "parseFloat (Num r) = Num r"
| "parseFloat (Str s) = parseFloat_str s"
| "parseFloat (Arr (x # xs)) = parseFloat x"
| "parseFloat v = NaN"

definition isNaN :: "jsval \<Rightarrow> bool" where
  "isNaN v = (v = NaN)"

definition isFloat :: "jsval \<Rightarrow> bool" where
  "isFloat v = (\<not> isNaN (parseFloat v))"

text \<open>\<open>a - b\<close> on the two results of \<open>parseFloat\<close>.\<close>

definition js_sub :: "jsval \<Rightarrow> jsval \<Rightarrow> jsval" where
  "js_sub a b = (case (a, b) of (Num x, Num y) \<Rightarrow> Num (x - y) | _ \<Rightarrow> NaN)"

section \<open>MotionValue\<close>

text \<open>
  The cancel handle an animation factory returns: the immediate-set strategy returns a
  function that does nothing, the engine returns the stop of the animation it started.
\<close>

datatype stop_fn = NoopStop | EngineStop nat

text \<open>
  The fields of the class. A subscriber of \<open>updateSubscribers\<close> is the property-bag key
  it writes the new value to (the one kind of handler the library registers).
\<close>

record motion_value =
  current :: jsval
  prev :: jsval
  timeDelta :: real
  lastUpdated :: real
  canTrackVelocity :: bool
  stopAnimation :: "stop_fn option"
  updateSubscribers :: "string list"

text \<open>The scheduler's frame data, \<open>getFrameData()\<close>.\<close>

record frame_data =
  delta :: real
  timestamp :: real

definition MotionValue :: "jsval \<Rightarrow> motion_value" where
  "MotionValue init =
     \<lparr>current = init, prev = init, timeDelta = 0, lastUpdated = 0,
      canTrackVelocity = isFloat init, stopAnimation = None, updateSubscribers = []\<rparr>"

text \<open>
  \<open>updateAndNotify\<close>, the part that changes the value itself; the velocity check it
  schedules and the subscribers it notifies belong to the world around the value.
\<close>

definition updateAndNotify :: "frame_data \<Rightarrow> jsval \<Rightarrow> motion_value \<Rightarrow> motion_value" where
  "updateAndNotify fd v mv =
     (let mv1 = mv\<lparr>prev := current mv, current := v\<rparr>
      in if lastUpdated mv1 \<noteq> timestamp fd
         then mv1\<lparr>timeDelta := delta fd, lastUpdated := timestamp fd\<rparr>
         else mv1)"

definition velocityCheck :: "real \<Rightarrow> motion_value \<Rightarrow> motion_value" where
  "velocityCheck ts mv =
     (let mv1 = (if \<not> canTrackVelocity mv
                 then mv\<lparr>canTrackVelocity := isFloat (current mv)\<rparr> else mv)
      in if ts \<noteq> lastUpdated mv1 then mv1\<lparr>prev := current mv1\<rparr> else mv1)"

text \<open>
  Modelled from the spec: \<open>velocityPerSecond\<close>, which the source imports from the tween
  engine's library: a change over one frame of \<open>frameDuration\<close> milliseconds, converted
  to per-second units; over no time it is 0.
\<close>

definition velocityPerSecond :: "jsval \<Rightarrow> real \<Rightarrow> jsval" where
  "velocityPerSecond velocity frameDuration =
     (if frameDuration = 0 then Num 0
      else (case velocity of Num x \<Rightarrow> Num (x * (1000 / frameDuration)) | _ \<Rightarrow> NaN))"

definition getVelocity :: "motion_value \<Rightarrow> jsval" where
  "getVelocity mv =
     (if canTrackVelocity mv
      then velocityPerSecond (js_sub (parseFloat (current mv)) (parseFloat (prev mv)))
             (timeDelta mv)
      else Num 0)"

definition clearAnimation :: "motion_value \<Rightarrow> motion_value" where
  "clearAnimation mv = mv\<lparr>stopAnimation := None\<rparr>"

definition isAnimating :: "motion_value \<Rightarrow> bool" where
  "isAnimating mv = (stopAnimation mv \<noteq> None)"





section \<open>Value types and animatability\<close>

datatype value_type =
  Color | Px | Degrees | Scale | Alpha | ProgressPercentage | IntType | Filter

definition valueTypes :: "(string \<times> value_type) list" where
  "valueTypes =
     [(''color'', Color), (''backgroundColor'', Color), (''outlineColor'', Color),
      (''fill'', Color), (''stroke'', Color), (''borderColor'', Color),
      (''borderTopColor'', Color), (''borderRightColor'', Color),
      (''borderBottomColor'', Color), (''borderLeftColor'', Color),
      (''borderWidth'', Px), (''borderTopWidth'', Px), (''borderRightWidth'', Px),
      (''borderBottomWidth'', Px), (''borderLeftWidth'', Px), (''borderRadius'', Px),
      (''radius'', Px), (''borderTopLeftRadius'', Px), (''borderTopRightRadius'', Px),
      (''borderBottomRightRadius'', Px), (''borderBottomLeftRadius'', Px),
      (''width'', Px), (''maxWidth'', Px), (''height'', Px), (''maxHeight'', Px),
      (''size'', Px), (''top'', Px), (''right'', Px), (''bottom'', Px), (''left'', Px),
      (''padding'', Px), (''paddingTop'', Px), (''paddingRight'', Px),
      (''paddingBottom'', Px), (''paddingLeft'', Px), (''margin'', Px),
      (''marginTop'', Px), (''marginRight'', Px), (''marginBottom'', Px),
      (''marginLeft'', Px), (''rotate'', Degrees), (''rotateX'', Degrees),
      (''rotateY'', Degrees), (''rotateZ'', Degrees), (''scale'', Scale),
      (''scaleX'', Scale), (''scaleY'', Scale), (''scaleZ'', Scale), (''skew'', Degrees),
      (''skewX'', Degrees), (''skewY'', Degrees), (''distance'', Px),
      (''translateX'', Px), (''translateY'', Px), (''translateZ'', Px), (''x'', Px),
      (''y'', Px), (''z'', Px), (''perspective'', Px), (''transformPerspective'', Px),
      (''opacity'', Alpha), (''originX'', ProgressPercentage),
      (''originY'', ProgressPercentage), (''originZ'', Px), (''zIndex'', IntType),
      (''filter'', Filter), (''WebkitFilter'', Filter), (''fillOpacity'', Alpha),
      (''strokeOpacity'', Alpha), (''numOctaves'', IntType)]"

definition getValueType :: "string \<Rightarrow> value_type option" where
  "getValueType key = map_of valueTypes key"

text \<open>
  What the source takes from the value-type library and does not define: the test of
  the complex-value grammar and the two \<open>getAnimatableNone\<close> functions. They are
  parameters of the model.
\<close>

record value_lib =
  complexTest :: "string \<Rightarrow> bool"
  complexNone :: "jsval \<Rightarrow> jsval"
  filterNone :: "jsval \<Rightarrow> jsval"

definition getAnimatableNone :: "value_lib \<Rightarrow> string \<Rightarrow> jsval \<Rightarrow> jsval" where
  "getAnimatableNone L key v =
     (if getValueType key = Some Filter then filterNone L v else complexNone L v)"

definition startsWith :: "string \<Rightarrow> string \<Rightarrow> bool" where
  "startsWith pre s = (take (length pre) s = pre)"

definition isAnimatable :: "value_lib \<Rightarrow> string \<Rightarrow> jsval \<Rightarrow> bool" where
  "isAnimatable L key v =
     (if key = ''zIndex'' then False
      else if isNumber v \<or> isArray v then True
      else (case v of
              Str s \<Rightarrow> complexTest L s \<and> \<not> startsWith ''url('' s
            | _ \<Rightarrow> False))"

text \<open>
  \<open>transition[key] || transition.default || transition\<close>. A transition, and each entry
  the source reads from it as a transition, is an object; \<open>as_obj\<close> is the object so read.
\<close>

definition getValueTransition :: "jsobj \<Rightarrow> string \<Rightarrow> jsval" where
  "getValueTransition transition key =
     js_or (obj_get transition key) (js_or (obj_get transition ''default'') (Obj transition))"

definition as_obj :: "jsval \<Rightarrow> jsobj" where
  "as_obj v = (case v of Obj kvs \<Rightarrow> kvs | _ \<Rightarrow> [])"

text \<open>The origin \<open>getAnimation\<close> settles on, and its choice between its two strategies.\<close>

definition animationOrigin :: "value_lib \<Rightarrow> string \<Rightarrow> jsval \<Rightarrow> jsval \<Rightarrow> jsobj \<Rightarrow> jsval" where
  "animationOrigin L key cur target transition =
     (let valueTransition = getValueTransition transition key;
          from = js_prop valueTransition ''from'';
          origin = (if from = Null \<or> from = Undefined then cur else from)
      in if origin = Str ''none'' \<and> isAnimatable L key target \<and> isString target
         then getAnimatableNone L key target else origin)"

datatype strategy = ImmediateSet | EngineStart

definition getAnimation :: "value_lib \<Rightarrow> string \<Rightarrow> jsval \<Rightarrow> jsval \<Rightarrow> jsobj \<Rightarrow> strategy" where
  "getAnimation L key cur target transition =
     (let valueTransition = getValueTransition transition key;
          origin = animationOrigin L key cur target transition;
          isTargetAnimatable = isAnimatable L key target;
          isOriginAnimatable = isAnimatable L key origin
      in if \<not> isOriginAnimatable \<or> \<not> isTargetAnimatable
            \<or> js_prop valueTransition ''type'' = Bool False
         then ImmediateSet else EngineStart)"

section \<open>The animated subject: values, engine calls, promises\<close>

text \<open>
  A completion callback the library passes on: the \<open>resolve\<close> of a promise it created,
  or a function of the caller.
\<close>

datatype callback = ResolvePromise nat | UserFunction jsval

datatype engine_kind = Animate | Inertia

text \<open>
  One call into the tween engine: which entry point, the options object (its function
  entries kept by name), and the closures the source wires into it:
  the MotionValue its \<open>onUpdate\<close> writes, the user's \<open>onUpdate\<close>, and the three
  completion callbacks of the \<open>animate\<close> path, in the order the source calls them.
\<close>

record engine_call =
  kind :: engine_kind
  options :: jsobj
  writes :: nat
  onUpdate_user :: jsval
  onComplete_variant :: jsval
  onComplete_caller :: "callback option"
  onComplete_start :: "nat option"

text \<open>
  The state of one subject. MotionValue objects live in a store, by address; the
  registry \<open>motionValues\<close> maps property names to addresses. Promises are numbered;
  \<open>settled\<close> lists the resolved ones. \<open>reactions\<close> holds, for a pending promise of
  \<open>MotionValue.start\<close>, the value whose \<open>clearAnimation\<close> its \<open>then\<close> will run;
  \<open>microtasks\<close> the \<open>then\<close> callbacks already queued. \<open>awaiting\<close> holds the
  promise lists that calls of \<open>leave\<close> wait on, \<open>doneCalls\<close> counts the calls of
  \<open>done\<close>, \<open>invoked\<close> lists the user functions called.
\<close>

record world =
  store :: "nat \<rightharpoonup> motion_value"
  allocated :: nat
  motionValues :: "(string \<times> nat) list"
  motionProperties :: jsobj
  frame :: frame_data
  calls :: "nat \<rightharpoonup> engine_call"
  engineCalls :: nat
  running :: "nat list"
  settled :: "nat list"
  promises :: nat
  invoked :: "jsval list"
  microtasks :: "nat list"
  reactions :: "(nat \<times> nat) list"
  awaiting :: "nat list list"
  doneCalls :: nat

definition isSettled :: "world \<Rightarrow> nat \<Rightarrow> bool" where
  "isSettled w p = (p \<in> set (settled w))"

text \<open>Resolving a promise: once; the \<open>then\<close> callbacks waiting on it are queued.\<close>

definition resolve :: "nat \<Rightarrow> world \<Rightarrow> world" where
  "resolve p w =
     (if isSettled w p then w
      else w\<lparr>settled := p # settled w,
             microtasks := microtasks w @ map snd (filter (\<lambda>(q, a). q = p) (reactions w)),
             reactions := filter (\<lambda>(q, a). q \<noteq> p) (reactions w)\<rparr>)"

text \<open>\<open>if (f) f()\<close> for a user function.\<close>

definition call_user :: "jsval \<Rightarrow> world \<Rightarrow> world" where
  "call_user f w = (if truthy f then w\<lparr>invoked := invoked w @ [f]\<rparr> else w)"

fun invoke :: "callback option \<Rightarrow> world \<Rightarrow> world" where
  "invoke None w = w"
| "invoke (Some (ResolvePromise p)) w = resolve p w"
| "invoke (Some (UserFunction f)) w = call_user f w"

text \<open>\<open>MotionValue.set\<close>: the value changes and each subscriber writes the property bag.\<close>

definition mv_set :: "nat \<Rightarrow> jsval \<Rightarrow> world \<Rightarrow> world" where
  "mv_set a v w =
     (case store w a of
        None \<Rightarrow> w
      | Some mv \<Rightarrow>
          (let mv1 = updateAndNotify (frame w) v mv
           in w\<lparr>store := (store w)(a \<mapsto> mv1),
                 motionProperties :=
                   foldl (\<lambda>bag k. obj_set bag k v) (motionProperties w)
                     (updateSubscribers mv1)\<rparr>))"

text \<open>\<open>MotionValue.stop\<close>: the stored handle is called, then cleared.\<close>

definition mv_stop :: "nat \<Rightarrow> world \<Rightarrow> world" where
  "mv_stop a w =
     (case store w a of
        None \<Rightarrow> w
      | Some mv \<Rightarrow>
          (let w1 = (case stopAnimation mv of
                       Some (EngineStop i) \<Rightarrow> w\<lparr>running := removeAll i (running w)\<rparr>
                     | _ \<Rightarrow> w)
           in w1\<lparr>store := (store w1)(a \<mapsto> clearAnimation mv)\<rparr>))"

text \<open>\<open>get\<close> of \<open>useMotionValues\<close>: the registered value, or a new one subscribed to the bag.\<close>

definition get_value :: "string \<Rightarrow> jsval \<Rightarrow> world \<Rightarrow> nat \<times> world" where
  "get_value key from w =
     (case map_of (motionValues w) key of
        Some a \<Rightarrow> (a, w)
      | None \<Rightarrow>
          (let a = allocated w;
               mv = (MotionValue from)\<lparr>updateSubscribers := [key]\<rparr>
           in (a, w\<lparr>store := (store w)(a \<mapsto> mv), allocated := Suc a,
                     motionValues := motionValues w @ [(key, a)]\<rparr>)))"

text \<open>
  The closure \<open>getAnimation\<close> returns: the strategy it chose and what it captured.
\<close>

record animation =
  a_strategy :: strategy
  a_key :: string
  a_value :: nat
  a_origin :: jsval
  a_target :: jsval
  a_transition :: jsobj
  a_onComplete :: "callback option"

definition makeAnimation ::
  "value_lib \<Rightarrow> string \<Rightarrow> nat \<Rightarrow> jsval \<Rightarrow> jsobj \<Rightarrow> callback option \<Rightarrow> world \<Rightarrow> animation" where
  "makeAnimation L key a target transition onComplete w =
     (let cur = (case store w a of Some mv \<Rightarrow> current mv | None \<Rightarrow> Undefined)
      in \<lparr>a_strategy = getAnimation L key cur target transition,
          a_key = key, a_value = a,
          a_origin = animationOrigin L key cur target transition,
          a_target = target, a_transition = transition, a_onComplete = onComplete\<rparr>)"

text \<open>
  The inner function \<open>start(complete)\<close> of \<open>getAnimation\<close>: a call into the engine.
  \<open>engineCall\<close> is what it passes: \<open>inertia\<close> gets the options merged with the value
  transition, \<open>animate\<close> gets the converted options and the two closures.
\<close>

definition engineCall :: "animation \<Rightarrow> nat \<Rightarrow> world \<Rightarrow> engine_call" where
  "engineCall an completeFn w =
     (let transition = a_transition an;
          valueTransition = getValueTransition transition (a_key an);
          measured = (case store w (a_value an) of
                        Some mv \<Rightarrow> getVelocity mv | None \<Rightarrow> Num 0);
          opts = [(''from'', a_origin an), (''to'', a_target an),
                  (''velocity'', if truthy (obj_get transition ''velocity'')
                                 then obj_get transition ''velocity'' else measured),
                  (''onUpdate'', Func ''value.set'' [])];
          ty = js_prop valueTransition ''type''
      in if ty = Str ''inertia'' \<or> ty = Str ''decay''
         then \<lparr>kind = Inertia, options = spread opts (as_obj valueTransition),
               writes = a_value an, onUpdate_user = Undefined,
               onComplete_variant = Undefined, onComplete_caller = None,
               onComplete_start = None\<rparr>
         else \<lparr>kind = Animate,
               options = spread
                 (getPopmotionAnimationOptions (as_obj valueTransition) opts (a_key an))
                 [(''onUpdate'', Func ''onUpdate'' []),
                  (''onComplete'', Func ''onComplete'' [])],
               writes = a_value an,
               onUpdate_user = js_prop valueTransition ''onUpdate'',
               onComplete_variant = obj_get transition ''onComplete'',
               onComplete_caller = a_onComplete an,
               onComplete_start = Some completeFn\<rparr>)"

definition engineStart :: "animation \<Rightarrow> nat \<Rightarrow> world \<Rightarrow> stop_fn \<times> world" where
  "engineStart an completeFn w =
     (let i = engineCalls w
      in (EngineStop i,
          w\<lparr>calls := (calls w)(i \<mapsto> engineCall an completeFn w), engineCalls := Suc i,
            running := running w @ [i]\<rparr>))"

text \<open>The inner function \<open>set(complete)\<close> of \<open>getAnimation\<close>: the immediate set.\<close>

definition immediateSet :: "animation \<Rightarrow> nat \<Rightarrow> world \<Rightarrow> stop_fn \<times> world" where
  "immediateSet an completeFn w =
     (let w1 = mv_set (a_value an) (a_target an) w;
          w2 = call_user (obj_get (a_transition an) ''onComplete'') w1;
          w3 = invoke (a_onComplete an) w2;
          w4 = resolve completeFn w3
      in (NoopStop, w4))"

definition runAnimation :: "animation \<Rightarrow> nat \<Rightarrow> world \<Rightarrow> stop_fn \<times> world" where
  "runAnimation an completeFn w =
     (case a_strategy an of
        ImmediateSet \<Rightarrow> immediateSet an completeFn w
      | EngineStart \<Rightarrow> engineStart an completeFn w)"

text \<open>
  \<open>MotionValue.start\<close>: stop, a new promise whose executor runs the animation and stores
  its handle, and a \<open>then\<close> on that promise that clears the handle: queued at once when
  the promise is resolved already, left as a reaction otherwise. The result is the
  number of the promise.
\<close>

definition mv_start :: "nat \<Rightarrow> animation \<Rightarrow> world \<Rightarrow> nat \<times> world" where
  "mv_start a an w =
     (let w1 = mv_stop a w;
          p = promises w1;
          w2 = w1\<lparr>promises := Suc p\<rparr>;
          (h, w3) = runAnimation an p w2;
          w4 = (case store w3 a of
                  None \<Rightarrow> w3
                | Some mv \<Rightarrow> w3\<lparr>store := (store w3)(a \<mapsto> mv\<lparr>stopAnimation := Some h\<rparr>)\<rparr>);
          w5 = (if isSettled w4 p then w4\<lparr>microtasks := microtasks w4 @ [a]\<rparr>
                else w4\<lparr>reactions := reactions w4 @ [(p, a)]\<rparr>)
      in (p, w5))"

text \<open>\<open>push\<close> of \<open>useMotionTransitions\<close>.\<close>

definition push ::
  "value_lib \<Rightarrow> string \<Rightarrow> jsval \<Rightarrow> jsobj \<Rightarrow> callback option \<Rightarrow> world \<Rightarrow> world" where
  "push L key v transition onComplete w =
     (let from = obj_get (motionProperties w) key;
          (a, w1) = get_value key from w
      in if truthy (obj_get transition ''immediate'') then mv_set a v w1
         else snd (mv_start a (makeAnimation L key a v transition onComplete w1) w1))"

section \<open>Controls: apply and leave\<close>

datatype error = VariantMissing string | TypeError

text \<open>
  The variants table maps a name to a variant, an object. \<open>apply\<close> takes a name or an
  inline variant.
\<close>

type_synonym variants = "(string \<times> jsobj) list"

datatype variant_ref = Named string | Inline jsobj

definition getVariantFromKey :: "variants \<Rightarrow> string \<Rightarrow> error + jsobj" where
  "getVariantFromKey vs name =
     (case map_of vs name of
        None \<Rightarrow> Inl (VariantMissing name)
      | Some v \<Rightarrow> Inr v)"

text \<open>
  The \<open>map\<close> over \<open>Object.entries(variant)\<close> in \<open>apply\<close>, with its \<open>filter(Boolean)\<close>:
  the promises created, in order, and the state after the pushes.
\<close>

fun apply_entries :: "value_lib \<Rightarrow> jsobj \<Rightarrow> jsobj \<Rightarrow> world \<Rightarrow> nat list \<times> world" where
  "apply_entries L variant [] w = ([], w)"
| "apply_entries L variant ((key, v) # rest) w =
     (if key = ''transition'' then apply_entries L variant rest w
      else (let p = promises w;
                w1 = w\<lparr>promises := Suc p\<rparr>;
                transition = as_obj (js_or (obj_get variant ''transition'')
                                       (Obj (getDefaultTransition key (obj_get variant key))));
                w2 = push L key v transition (Some (ResolvePromise p)) w1;
                (ps, w3) = apply_entries L variant rest w2
            in (p # ps, w3)))"

text \<open>\<open>apply\<close>: the promises \<open>Promise.all\<close> joins, or the error thrown.\<close>

definition apply_variant ::
  "value_lib \<Rightarrow> variants \<Rightarrow> variant_ref \<Rightarrow> world \<Rightarrow> error + (nat list \<times> world)" where
  "apply_variant L vs vref w =
     (case vref of
        Named name \<Rightarrow>
          (case getVariantFromKey vs name of
             Inl e \<Rightarrow> Inl e
           | Inr variant \<Rightarrow> Inr (apply_entries L variant variant w))
      | Inline variant \<Rightarrow> Inr (apply_entries L variant variant w))"

text \<open>\<open>Promise.all\<close> over promises that only resolve: settled when each of them is.\<close>

definition aggregateSettled :: "world \<Rightarrow> nat list \<Rightarrow> bool" where
  "aggregateSettled w ps = list_all (isSettled w) ps"

text \<open>
  \<open>leave\<close>: \<open>done\<close> is called at once, or the call waits on the promises of \<open>apply\<close>.
\<close>

definition leave :: "value_lib \<Rightarrow> variants \<Rightarrow> world \<Rightarrow> error + world" where
  "leave L vs w =
     (let leaveVariant = (case map_of vs ''leave'' of
                            Some v \<Rightarrow> Some v
                          | None \<Rightarrow> map_of vs ''initial'')
      in case leaveVariant of
           None \<Rightarrow> Inr (w\<lparr>doneCalls := Suc (doneCalls w)\<rparr>)
         | Some v \<Rightarrow>
             (case apply_variant L vs (Inline v) w of
                Inl e \<Rightarrow> Inl e
              | Inr (ps, w1) \<Rightarrow> Inr (w1\<lparr>awaiting := awaiting w1 @ [ps]\<rparr>)))"

section \<open>The engine's callbacks and the microtask queue\<close>

text \<open>
  Modelled from the spec: the tween engine, which the source imports: it completes an
  animation that is running, once, by calling the \<open>onComplete\<close> it was given; an
  animation cancelled through its handle is not completed.
\<close>

definition engineComplete :: "nat \<Rightarrow> world \<Rightarrow> world" where
  "engineComplete i w =
     (case calls w i of
        None \<Rightarrow> w
      | Some c \<Rightarrow>
          (if i \<notin> set (running w) then w
           else (let w1 = w\<lparr>running := removeAll i (running w)\<rparr>
                 in case kind c of
                      Animate \<Rightarrow>
                        (let w2 = call_user (onComplete_variant c) w1;
                             w3 = invoke (onComplete_caller c) w2
                         in case onComplete_start c of
                              Some p \<Rightarrow> resolve p w3
                            | None \<Rightarrow> w3)
                    | Inertia \<Rightarrow> call_user (obj_get (options c) ''onComplete'') w1)))"

definition engineUpdate :: "nat \<Rightarrow> jsval \<Rightarrow> world \<Rightarrow> world" where
  "engineUpdate i v w =
     (case calls w i of
        None \<Rightarrow> w
      | Some c \<Rightarrow>
          (if i \<notin> set (running w) then w
           else (case kind c of
                   Animate \<Rightarrow> call_user (onUpdate_user c) (mv_set (writes c) v w)
                 | Inertia \<Rightarrow>
                     (if obj_get (options c) ''onUpdate'' = Func ''value.set'' []
                      then mv_set (writes c) v w
                      else call_user (obj_get (options c) ''onUpdate'') w))))"

definition clear_at :: "nat \<Rightarrow> world \<Rightarrow> world" where
  "clear_at a w =
     (case store w a of
        None \<Rightarrow> w
      | Some mv \<Rightarrow> w\<lparr>store := (store w)(a \<mapsto> clearAnimation mv)\<rparr>)"

text \<open>
  The microtasks that run when the synchronous code of a task has ended: the queued
  \<open>then\<close> callbacks of \<open>MotionValue.start\<close>, and the continuations of \<open>leave\<close> whose
  promises are all settled.
\<close>

definition run_microtasks :: "world \<Rightarrow> world" where
  "run_microtasks w =
     (let w1 = foldl (\<lambda>u a. clear_at a u) w (microtasks w);
          ready = filter (aggregateSettled w1) (awaiting w1)
      in w1\<lparr>microtasks := [],
            awaiting := filter (\<lambda>ps. \<not> aggregateSettled w1 ps) (awaiting w1),
            doneCalls := doneCalls w1 + length ready\<rparr>)"

text \<open>
  What a task does, step by step: calls from the application, callbacks of the engine,
  a new frame of the scheduler, a velocity check the scheduler runs.
\<close>

datatype action =
    Push string jsval jsobj jsval
  | Apply variant_ref
  | Leave
  | StopValue string
  | EngineComplete nat
  | EngineUpdate nat jsval
  | NewFrame frame_data
  | CheckVelocity string

fun exec :: "value_lib \<Rightarrow> variants \<Rightarrow> action \<Rightarrow> world \<Rightarrow> error + world" where
  "exec L vs (Push key v transition f) w =
     Inr (push L key v transition (Some (UserFunction f)) w)"
| "exec L vs (Apply vref) w =
     (case apply_variant L vs vref w of Inl e \<Rightarrow> Inl e | Inr (ps, w1) \<Rightarrow> Inr w1)"
| "exec L vs Leave w = leave L vs w"
| "exec L vs (StopValue key) w =
     Inr (case map_of (motionValues w) key of None \<Rightarrow> w | Some a \<Rightarrow> mv_stop a w)"
| "exec L vs (EngineComplete i) w = Inr (engineComplete i w)"
| "exec L vs (EngineUpdate i v) w = Inr (engineUpdate i v w)"
| "exec L vs (NewFrame fd) w = Inr (w\<lparr>frame := fd\<rparr>)"
| "exec L vs (CheckVelocity key) w =
     Inr (case map_of (motionValues w) key of
            None \<Rightarrow> w
          | Some a \<Rightarrow>
              (case store w a of
                 None \<Rightarrow> w
               | Some mv \<Rightarrow>
                   w\<lparr>store := (store w)(a \<mapsto> velocityCheck (timestamp (frame w)) mv)\<rparr>))"

text \<open>A task runs its steps until one throws; then the microtasks run.\<close>

fun exec_all :: "value_lib \<Rightarrow> variants \<Rightarrow> action list \<Rightarrow> world \<Rightarrow> world" where
  "exec_all L vs [] w = w"
| "exec_all L vs (act # acts) w =
     (case exec L vs act w of Inl e \<Rightarrow> w | Inr w1 \<Rightarrow> exec_all L vs acts w1)"

definition run_task :: "value_lib \<Rightarrow> variants \<Rightarrow> action list \<Rightarrow> world \<Rightarrow> world" where
  "run_task L vs acts w = run_microtasks (exec_all L vs acts w)"

definition run_tasks :: "value_lib \<Rightarrow> variants \<Rightarrow> action list list \<Rightarrow> world \<Rightarrow> world" where
  "run_tasks L vs tasks w = foldl (\<lambda>u t. run_task L vs t u) w tasks"

text \<open>A subject before anything was animated, with its property bag.\<close>

definition newWorld :: "jsobj \<Rightarrow> world" where
  "newWorld bag =
     \<lparr>store = Map.empty, allocated = 0, motionValues = [], motionProperties = bag,
      frame = \<lparr>delta = 0, timestamp = 0\<rparr>, calls = Map.empty, engineCalls = 0,
      running = [], settled = [], promises = 0, invoked = [], microtasks = [],
      reactions = [], awaiting = [], doneCalls = 0\<rparr>"

section \<open>Promises that can no longer settle\<close>

text \<open>
  A promise is referenced when a running animation holds its \<open>resolve\<close> among its
  completion callbacks. A promise of the past that is neither settled nor referenced is
  out of reach.
\<close>

definition referenced :: "world \<Rightarrow> nat \<Rightarrow> bool" where
  "referenced w p =
     list_ex (\<lambda>i. case calls w i of
                    None \<Rightarrow> False
                  | Some c \<Rightarrow> onComplete_start c = Some p
                              \<or> onComplete_caller c = Some (ResolvePromise p))
       (running w)"

definition unreachable :: "world \<Rightarrow> nat \<Rightarrow> bool" where
  "unreachable w p = (p < promises w \<and> \<not> isSettled w p \<and> \<not> referenced w p)"

section \<open>Well-formed states\<close>

text \<open>
  What holds of every state the library reaches: a registered name has its value in the
  store, and the promises that are settled, or held by a running animation, have been
  created.
\<close>

definition callback_promises :: "callback option \<Rightarrow> nat list" where
  "callback_promises cb = (case cb of Some (ResolvePromise p) \<Rightarrow> [p] | _ \<Rightarrow> [])"

definition call_promises :: "engine_call \<Rightarrow> nat list" where
  "call_promises c =
     (case onComplete_start c of Some p \<Rightarrow> [p] | None \<Rightarrow> [])
     @ callback_promises (onComplete_caller c)"

definition callback_ok :: "world \<Rightarrow> callback option \<Rightarrow> bool" where
  "callback_ok w cb = list_all (\<lambda>p. p < promises w) (callback_promises cb)"

definition wellformed :: "world \<Rightarrow> bool" where
  "wellformed w =
     (list_all (\<lambda>(k, a). store w a \<noteq> None) (motionValues w)
      \<and> list_all (\<lambda>q. q < promises w) (settled w)
      \<and> list_all (\<lambda>i. case calls w i of
                        None \<Rightarrow> True
                      | Some c \<Rightarrow> list_all (\<lambda>p. p < promises w) (call_promises c))
           (running w))"

text \<open>
  The value \<open>getAnimation\<close> reads as \<open>value.get()\<close> in \<open>push\<close>: the current value of the
  registered MotionValue, or for a new name the property bag's entry, with which \<open>get\<close>
  creates it.
\<close>

definition currentOf :: "world \<Rightarrow> string \<Rightarrow> jsval" where
  "currentOf w key =
     (case map_of (motionValues w) key of
        Some a \<Rightarrow> (case store w a of Some mv \<Rightarrow> current mv | None \<Rightarrow> Undefined)
      | None \<Rightarrow> obj_get (motionProperties w) key)"

section \<open>The transform string\<close>

text \<open>
  What the serializer takes from the runtime and the value-type library: the string of
  a number, and the colour type's \<open>transform\<close>. They are parameters of the model.
\<close>

record runtime =
  numberToString :: "real \<Rightarrow> string"
  colorTransform :: "jsval \<Rightarrow> jsval"

definition join :: "string \<Rightarrow> string list \<Rightarrow> string" where
  "join sep xs = (case xs of [] \<Rightarrow> [] | x # rest \<Rightarrow> foldl (\<lambda>acc y. acc @ sep @ y) x rest)"

text \<open>
  The string of a value, as a template literal makes it. A function is written as its
  name here; its source text is not part of the model.
\<close>

fun toStr :: "runtime \<Rightarrow> jsval \<Rightarrow> string" where
  "toStr R Undefined = ''undefined''"
| "toStr R Null = ''null''"
| "toStr R (Bool b) = (if b then ''true'' else ''false'')"
| "toStr R (Num r) = numberToString R r"
| "toStr R NaN = ''NaN''"
| "toStr R (Str s) = s"
| "toStr R (Arr xs) =
     join '','' (map (\<lambda>x. if x = Undefined \<or> x = Null then [] else toStr R x) xs)"
| "toStr R (Obj kvs) = ''[object Object]''"
| "toStr R (Func f args) = f"

text \<open>
  Modelled from the spec: the \<open>transform\<close> of each value type of the value-type
  library, applied to a number: the unit types append their canonical unit (\<open>px\<close>,
  \<open>deg\<close>), scale is the number itself, alpha is clamped to 0..1, a progress percentage
  is the hundredfold with \<open>%\<close>. The integer type is the source's own: \<open>Math.round\<close>.
  The filter type has no \<open>transform\<close>.
\<close>

definition typeTransform :: "runtime \<Rightarrow> value_type \<Rightarrow> jsval \<Rightarrow> jsval" where
  "typeTransform R ty v =
     (case ty of
        Px \<Rightarrow> Str (toStr R v @ ''px'')
      | Degrees \<Rightarrow> Str (toStr R v @ ''deg'')
      | Scale \<Rightarrow> v
      | Alpha \<Rightarrow> (case v of Num r \<Rightarrow> Num (min (max r 0) 1) | _ \<Rightarrow> v)
      | ProgressPercentage \<Rightarrow>
          Str (toStr R (case v of Num r \<Rightarrow> Num (r * 100) | _ \<Rightarrow> v) @ ''%'')
      | IntType \<Rightarrow> (case v of Num r \<Rightarrow> Num (of_int \<lfloor>r + 1 / 2\<rfloor>) | _ \<Rightarrow> v)
      | Color \<Rightarrow> colorTransform R v
      | Filter \<Rightarrow> v)"

definition getValueAsType :: "runtime \<Rightarrow> jsval \<Rightarrow> value_type option \<Rightarrow> jsval" where
  "getValueAsType R v ty =
     (case ty of
        None \<Rightarrow> v
      | Some t \<Rightarrow> (if isNumber v \<and> t \<noteq> Filter then typeTransform R t v else v))"

definition translateAlias :: "string \<Rightarrow> string" where
  "translateAlias key =
     (if key = ''x'' then ''translateX'' else if key = ''y'' then ''translateY''
      else if key = ''z'' then ''translateZ'' else key)"

text \<open>The loop over \<open>Object.entries(newVal)\<close> in \<open>reactiveTransform\<close>, on \<open>result\<close>.\<close>

fun transformTerms :: "runtime \<Rightarrow> bool \<Rightarrow> jsobj \<Rightarrow> string \<Rightarrow> string" where
  "transformTerms R hw [] result = result"
| "transformTerms R hw ((key, v) # rest) result =
     (if hw \<and> (key = ''x'' \<or> key = ''y'' \<or> key = ''z'')
      then transformTerms R hw rest result
      else transformTerms R hw rest
             (result @ translateAlias key @ ''(''
                @ toStr R (getValueAsType R v (getValueType key)) @ '') ''))"

text \<open>
  The watcher of \<open>reactiveTransform\<close>: the transform string of a state, with or
  without hardware acceleration.
\<close>

definition reactiveTransform :: "runtime \<Rightarrow> bool \<Rightarrow> jsobj \<Rightarrow> string" where
  "reactiveTransform R enableHardwareAcceleration newVal =
     (let x = obj_get newVal ''x''; y = obj_get newVal ''y''; z = obj_get newVal ''z'';
          hasHardwareAcceleration =
            (enableHardwareAcceleration \<and> (truthy x \<or> truthy y \<or> truthy z));
          result0 =
            (if hasHardwareAcceleration
             then ''translate3d(''
                  @ join '','' (map (\<lambda>v. toStr R v @ ''px'')
                                 [js_or x (Num 0), js_or y (Num 0), js_or z (Num 0)])
                  @ '') ''
             else []);
          result1 = transformTerms R enableHardwareAcceleration newVal result0;
          result2 = (if enableHardwareAcceleration \<and> \<not> hasHardwareAcceleration
                     then result1 @ ''translateZ(0px) '' else result1)
      in trim result2)"

section \<open>Reading a transform string back\<close>

text \<open>\<open>split(/\) |\)/)\<close>: at a closing parenthesis, together with one space after it.\<close>

fun splitClose :: "string \<Rightarrow> string \<Rightarrow> string list" where
  "splitClose [] cur = [cur]"
| "splitClose (c # cs) cur =
     (if c = CHR '')''
      then (case cs of
              d # ds \<Rightarrow> (if d = CHR '' '' then cur # splitClose ds [] else cur # splitClose cs [])
            | [] \<Rightarrow> cur # splitClose cs [])
      else splitClose cs (cur @ [c]))"

text \<open>\<open>split\<close> at a character.\<close>

fun splitAt :: "char \<Rightarrow> string \<Rightarrow> string \<Rightarrow> string list" where
  "splitAt sep [] cur = [cur]"
| "splitAt sep (c # cs) cur =
     (if c = sep then cur # splitAt sep cs [] else splitAt sep cs (cur @ [c]))"

definition endsWith :: "string \<Rightarrow> string \<Rightarrow> bool" where
  "endsWith suf s = (length suf \<le> length s \<and> drop (length s - length suf) s = suf)"

text \<open>\<open>val.replace(")", "")\<close>: the first closing parenthesis removed.\<close>

fun removeFirst :: "char \<Rightarrow> string \<Rightarrow> string" where
  "removeFirst c [] = []"
| "removeFirst c (d # ds) = (if d = c then ds else d # removeFirst c ds)"

definition parseValues :: "string \<Rightarrow> jsval" where
  "parseValues v =
     (if endsWith ''px'' v \<or> endsWith ''deg'' v then parseFloat_str v
      else if isNaN (Number_str v) then Number_str v
      else Str v)"

text \<open>
  The reducer of \<open>parseTransform\<close>. A piece without an opening parenthesis has no
  \<open>transformValue\<close>, and the call of \<open>split\<close> on it throws.
\<close>

fun parsePieces :: "string list \<Rightarrow> jsobj \<Rightarrow> error + jsobj" where
  "parsePieces [] acc = Inr acc"
| "parsePieces (transform2 # rest) acc =
     (if transform2 = [] then parsePieces rest acc
      else (case splitAt CHR ''(''  transform2 [] of
              name # transformValue # others \<Rightarrow>
                (let valueArray = splitAt CHR '','' transformValue [];
                     vals = map (\<lambda>val. parseValues
                                    (if endsWith '')'' val then removeFirst CHR '')'' val
                                     else trim val)) valueArray;
                     v = (case vals of [v0] \<Rightarrow> v0 | _ \<Rightarrow> Arr vals)
                 in parsePieces rest (obj_set acc name v))
            | _ \<Rightarrow> Inl TypeError))"

definition parseTransform :: "string \<Rightarrow> error + jsobj" where
  "parseTransform transform =
     (let transforms = splitClose (trim transform) []
      in if length transforms = 1 then Inr [] else parsePieces transforms [])"

text \<open>
  The loop of \<open>stateFromTransform\<close>. Each value goes through \<open>parseFloat\<close> first, so
  in the \<open>translate3d\<close> branch it is a number or \<open>NaN\<close>: unless it is 0, the call of
  \<open>value.forEach\<close> throws.
\<close>

fun stateEntries :: "jsobj \<Rightarrow> jsobj \<Rightarrow> error + jsobj" where
  "stateEntries state [] = Inr state"
| "stateEntries state ((key, v0) # rest) =
     (let v = parseFloat v0
      in if key = ''translate3d''
         then (if v = Num 0
               then stateEntries
                      (obj_set (obj_set (obj_set state ''x'' (Num 0)) ''y'' (Num 0)) ''z'' (Num 0))
                      rest
               else Inl TypeError)
         else if key = ''translateX'' then stateEntries (obj_set state ''x'' v) rest
         else if key = ''translateY'' then stateEntries (obj_set state ''y'' v) rest
         else if key = ''translateZ'' then stateEntries (obj_set state ''z'' v) rest
         else stateEntries (obj_set state key v) rest)"

definition stateFromTransform :: "jsobj \<Rightarrow> string \<Rightarrow> error + jsobj" where
  "stateFromTransform state transform =
     (case parseTransform transform of
        Inl e \<Rightarrow> Inl e
      | Inr parsed \<Rightarrow> stateEntries state parsed)"

text \<open>
  The string of an integer-valued number below \<open>10^21\<close> in magnitude: its decimal
  digits. It stands for the runtime's conversion where a concrete one is needed.
\<close>

definition digitChar :: "nat \<Rightarrow> char" where
  "digitChar n = ''0123456789'' ! n"

fun digitsOf :: "nat \<Rightarrow> nat \<Rightarrow> string" where
  "digitsOf 0 n = []"
| "digitsOf (Suc fuel) n =
     (if n < 10 then [digitChar n]
      else digitsOf fuel (n div 10) @ [digitChar (n mod 10)])"

definition integerString :: "real \<Rightarrow> string" where
  "integerString r =
     (let i = \<lfloor>r\<rfloor>
      in (if i < 0 then ''-'' else []) @ digitsOf 22 (nat \<bar>i\<bar>))"

section \<open>Properties\<close>

subsection \<open>Evaluation rules\<close>

lemmas transition_defs =
  getDefaultTransition_def isKeyframesTarget_def isArray_def defaultTransitions_def
  linearTween_def criticallyDampedSpring_def overDampedSpring_def underDampedSpring_def
  keyframes_def spread_def obj_set_def

lemmas option_defs =
  getPopmotionAnimationOptions_def convertTransitionToAnimationOptions_def
  isTransitionDefined_def hydrateKeyframes_def without_def easingDefinitionToFunction_def
  isEasingArray_def easingNames_def nth_or_undefined_def js_neg_def

lemmas value_defs =
  js_or_def js_prop_def obj_get_def as_obj_def isNumber_def isString_def isFloat_def
  isNaN_def js_sub_def

lemmas motion_defs =
  MotionValue_def updateAndNotify_def velocityCheck_def getVelocity_def
  velocityPerSecond_def clearAnimation_def

lemmas world_defs =
  push_def get_value_def mv_start_def mv_stop_def mv_set_def makeAnimation_def
  runAnimation_def engineStart_def engineCall_def immediateSet_def getAnimation_def animationOrigin_def
  getValueTransition_def isAnimatable_def isSettled_def resolve_def call_user_def

lemmas parse_defs =
  parseFloat_str_def Number_str_def decimalPrefix_def readSign_def readExponent_def
  isDigit_def isWhite_def digitsVal_def digitVal_def trim_def

subsection \<open>Default transitions (C4)\<close>

text \<open>
  C4. Applying the variant \<open>{opacity: 1, scale: 1}\<close> with no transition of its own, on a
  subject whose opacity and scale are numbers: the default of opacity is the linear
  keyframes tween of 300 ms, the default of scale is the critically damped spring, whose
  damping is \<open>2 * sqrt 550\<close> for the destination 0 and 30 otherwise; and the two
  calls that reach the tween engine carry these options, the scale one with damping 30.
\<close>

theorem apply_opacity_scale_defaults:
  "getDefaultTransition ''opacity'' (Num 1) =
     [(''to'', Num 1), (''type'', Str ''keyframes''), (''ease'', Str ''linear''),
      (''duration'', Num 300)]
   \<and> getDefaultTransition ''scale'' (Num r) =
     [(''to'', Num r), (''type'', Str ''spring''), (''stiffness'', Num 550),
      (''damping'', Num (if r = 0 then 2 * sqrt 550 else 30)),
      (''restDelta'', Num 0.01), (''restSpeed'', Num 10)]
   \<and> (\<exists>ps w.
        apply_variant L vs (Inline [(''opacity'', Num 1), (''scale'', Num 1)])
          (newWorld [(''opacity'', Num a), (''scale'', Num b)]) = Inr (ps, w)
        \<and> engineCalls w = 2
        \<and> map_option (\<lambda>c. (kind c, options c)) (calls w 0) =
            Some (Animate,
              [(''from'', Num a), (''to'', Num 1), (''velocity'', Num 0),
               (''onUpdate'', Func ''onUpdate'' []), (''type'', Str ''keyframes''),
               (''duration'', Num 300), (''ease'', Func ''linear'' []),
               (''onComplete'', Func ''onComplete'' [])])
        \<and> map_option (\<lambda>c. (kind c, options c)) (calls w 1) =
            Some (Animate,
              [(''from'', Num b), (''to'', Num 1), (''velocity'', Num 0),
               (''onUpdate'', Func ''onUpdate'' []), (''type'', Str ''spring''),
               (''stiffness'', Num 550), (''damping'', Num 30),
               (''restDelta'', Num 0.01), (''restSpeed'', Num 10),
               (''onComplete'', Func ''onComplete'' [])]))"
proof (intro conjI)
  show "getDefaultTransition ''opacity'' (Num 1) =
     [(''to'', Num 1), (''type'', Str ''keyframes''), (''ease'', Str ''linear''),
      (''duration'', Num 300)]"
    by (simp add: transition_defs)
  show "getDefaultTransition ''scale'' (Num r) =
     [(''to'', Num r), (''type'', Str ''spring''), (''stiffness'', Num 550),
      (''damping'', Num (if r = 0 then 2 * sqrt 550 else 30)),
      (''restDelta'', Num 0.01), (''restSpeed'', Num 10)]"
    by (simp add: transition_defs)
  show "\<exists>ps w.
        apply_variant L vs (Inline [(''opacity'', Num 1), (''scale'', Num 1)])
          (newWorld [(''opacity'', Num a), (''scale'', Num b)]) = Inr (ps, w)
        \<and> engineCalls w = 2
        \<and> map_option (\<lambda>c. (kind c, options c)) (calls w 0) =
            Some (Animate,
              [(''from'', Num a), (''to'', Num 1), (''velocity'', Num 0),
               (''onUpdate'', Func ''onUpdate'' []), (''type'', Str ''keyframes''),
               (''duration'', Num 300), (''ease'', Func ''linear'' []),
               (''onComplete'', Func ''onComplete'' [])])
        \<and> map_option (\<lambda>c. (kind c, options c)) (calls w 1) =
            Some (Animate,
              [(''from'', Num b), (''to'', Num 1), (''velocity'', Num 0),
               (''onUpdate'', Func ''onUpdate'' []), (''type'', Str ''spring''),
               (''stiffness'', Num 550), (''damping'', Num 30),
               (''restDelta'', Num 0.01), (''restSpeed'', Num 10),
               (''onComplete'', Func ''onComplete'' [])])"
    by (simp add: apply_variant_def newWorld_def world_defs value_defs motion_defs
        option_defs transition_defs Let_def)
qed

theorem apply_opacity_scale_defaults_witness:
  "getDefaultTransition ''scale'' (Num 1) =
     [(''to'', Num 1), (''type'', Str ''spring''), (''stiffness'', Num 550),
      (''damping'', Num 30), (''restDelta'', Num 0.01), (''restSpeed'', Num 10)]
   \<and> getDefaultTransition ''scale'' (Num 0) =
     [(''to'', Num 0), (''type'', Str ''spring''), (''stiffness'', Num 550),
      (''damping'', Num (2 * sqrt 550)), (''restDelta'', Num 0.01), (''restSpeed'', Num 10)]"
  using apply_opacity_scale_defaults [of 1] apply_opacity_scale_defaults [of 0]
  by simp

subsection \<open>Unknown variant names (C5)\<close>



subsection \<open>Velocity (C9)\<close>




subsection \<open>Invariants of the subject's state\<close>

lemma unreachable_resolve: "unreachable w p \<Longrightarrow> q \<noteq> p \<Longrightarrow> unreachable (resolve q w) p"
  by (auto simp: unreachable_def resolve_def isSettled_def referenced_def)

lemma unreachable_call_user: "unreachable w p \<Longrightarrow> unreachable (call_user f w) p"
  by (auto simp: unreachable_def call_user_def isSettled_def referenced_def)

lemma unreachable_invoke: "unreachable w p \<Longrightarrow> cb \<noteq> Some (ResolvePromise p) \<Longrightarrow> unreachable (invoke cb w) p"
  by (cases "(cb, w)" rule: invoke.cases) (auto simp: unreachable_resolve unreachable_call_user)

lemma unreachable_mv_set: "unreachable w p \<Longrightarrow> unreachable (mv_set a v w) p"
  by (auto simp: unreachable_def mv_set_def isSettled_def referenced_def Let_def split: option.splits)

lemma unreachable_mv_stop: "unreachable w p \<Longrightarrow> unreachable (mv_stop a w) p"
  by (auto simp: unreachable_def mv_stop_def isSettled_def referenced_def Let_def list_ex_iff
      split: option.splits stop_fn.splits)

lemma unreachable_immediateSet:
  "unreachable w p \<Longrightarrow> q \<noteq> p \<Longrightarrow> a_onComplete an \<noteq> Some (ResolvePromise p) \<Longrightarrow>
   unreachable (snd (immediateSet an q w)) p"
  by (simp add: immediateSet_def Let_def unreachable_resolve unreachable_invoke unreachable_call_user unreachable_mv_set)

lemma unreachable_engineStart:
  "unreachable w p \<Longrightarrow> q \<noteq> p \<Longrightarrow> a_onComplete an \<noteq> Some (ResolvePromise p) \<Longrightarrow>
   unreachable (snd (engineStart an q w)) p"
  by (auto simp: engineStart_def engineCall_def Let_def unreachable_def isSettled_def
      referenced_def list_ex_iff)

lemma unreachable_runAnimation:
  "unreachable w p \<Longrightarrow> q \<noteq> p \<Longrightarrow> a_onComplete an \<noteq> Some (ResolvePromise p) \<Longrightarrow>
   unreachable (snd (runAnimation an q w)) p"
  by (simp add: runAnimation_def unreachable_immediateSet unreachable_engineStart split: strategy.splits)

lemma unreachable_fields:
  "unreachable w p \<Longrightarrow> promises w \<le> promises u \<Longrightarrow> settled u = settled w \<Longrightarrow> running u = running w
   \<Longrightarrow> calls u = calls w \<Longrightarrow> unreachable u p"
  by (auto simp: unreachable_def isSettled_def referenced_def)

lemma unreachable_mv_start:
  assumes "unreachable w p" "a_onComplete an \<noteq> Some (ResolvePromise p)"
  shows "unreachable (snd (mv_start a an w)) p"
proof -
  let ?w1 = "mv_stop a w"
  let ?q = "promises ?w1"
  let ?w2 = "?w1\<lparr>promises := Suc ?q\<rparr>"
  have d1: "unreachable ?w1 p" using assms(1) by (rule unreachable_mv_stop)
  then have qp: "?q \<noteq> p" by (auto simp: unreachable_def)
  have d2: "unreachable ?w2 p" using d1 by (rule unreachable_fields) simp_all
  have d3: "unreachable (snd (runAnimation an ?q ?w2)) p"
    using d2 qp assms(2) by (rule unreachable_runAnimation)
  obtain h w3 where r: "runAnimation an ?q ?w2 = (h, w3)" by (cases "runAnimation an ?q ?w2")
  with d3 have d3': "unreachable w3 p" by simp
  show ?thesis
    using d3' r
    by (auto simp: mv_start_def Let_def unreachable_def isSettled_def referenced_def
        split: option.splits)
qed

lemma unreachable_get_value: "unreachable w p \<Longrightarrow> unreachable (snd (get_value k f w)) p"
  by (auto simp: get_value_def Let_def unreachable_def isSettled_def referenced_def split: option.splits)

lemma a_onComplete_make [simp]: "a_onComplete (makeAnimation L key a t tr cb w) = cb"
  by (simp add: makeAnimation_def Let_def)

lemma unreachable_push:
  assumes "unreachable w p" "cb \<noteq> Some (ResolvePromise p)"
  shows "unreachable (push L key v tr cb w) p"
proof -
  obtain a w1 where g: "get_value key (obj_get (motionProperties w) key) w = (a, w1)"
    by (cases "get_value key (obj_get (motionProperties w) key) w")
  have d1: "unreachable w1 p" using unreachable_get_value [OF assms(1), of key "obj_get (motionProperties w) key"] g by simp
  show ?thesis
    using g d1 assms(2) by (simp add: push_def Let_def unreachable_mv_set unreachable_mv_start)
qed

lemma unreachable_apply_entries:
  "unreachable w p \<Longrightarrow> unreachable (snd (apply_entries L variant es w)) p"
proof (induction es arbitrary: w)
  case Nil
  then show ?case by simp
next
  case (Cons e es)
  obtain key v where e: "e = (key, v)" by (cases e)
  show ?case
  proof (cases "key = ''transition''")
    case True
    then show ?thesis using Cons e by simp
  next
    case False
    let ?q = "promises w"
    let ?w1 = "w\<lparr>promises := Suc ?q\<rparr>"
    have qp: "?q \<noteq> p" using Cons.prems by (auto simp: unreachable_def)
    have d1: "unreachable ?w1 p" using Cons.prems by (rule unreachable_fields) simp_all
    let ?tr = "as_obj (js_or (obj_get variant ''transition'')
                    (Obj (getDefaultTransition key (obj_get variant key))))"
    let ?w2 = "push L key v ?tr (Some (ResolvePromise ?q)) ?w1"
    have "unreachable ?w2 p"
      using d1 qp by (intro unreachable_push) auto
    from Cons.IH [OF this] have "unreachable (snd (apply_entries L variant es ?w2)) p" .
    then show ?thesis
      using e False by (auto simp: Let_def split: prod.splits)
  qed
qed

lemma unreachable_apply_variant:
  assumes "unreachable w p" "apply_variant L vs vref w = Inr (ps, w')"
  shows "unreachable w' p"
proof -
  obtain variant where "apply_entries L variant variant w = (ps, w')"
    using assms(2) by (auto simp: apply_variant_def split: variant_ref.splits sum.splits)
  with unreachable_apply_entries [OF assms(1), of L variant variant] show ?thesis by simp
qed

lemma unreachable_leave:
  assumes "unreachable w p" "leave L vs w = Inr w'"
  shows "unreachable w' p"
proof (cases "case map_of vs ''leave'' of Some v \<Rightarrow> Some v | None \<Rightarrow> map_of vs ''initial''")
  case None
  then have "w' = w\<lparr>doneCalls := Suc (doneCalls w)\<rparr>"
    using assms(2) by (simp add: leave_def)
  then show ?thesis using assms(1) by (auto intro: unreachable_fields)
next
  case (Some v)
  then obtain ps w1 where a: "apply_variant L vs (Inline v) w = Inr (ps, w1)"
    and w': "w' = w1\<lparr>awaiting := awaiting w1 @ [ps]\<rparr>"
    using assms(2) by (auto simp: leave_def split: sum.splits)
  have "unreachable w1 p" using assms(1) a by (rule unreachable_apply_variant)
  then show ?thesis unfolding w' by (rule unreachable_fields) simp_all
qed

lemma unreachable_engineComplete: "unreachable w p \<Longrightarrow> unreachable (engineComplete i w) p"
proof (cases "calls w i")
  case None
  then show "unreachable w p \<Longrightarrow> ?thesis" by (simp add: engineComplete_def)
next
  case (Some c)
  assume d: "unreachable w p"
  show ?thesis
  proof (cases "i \<in> set (running w)")
    case False
    then show ?thesis using d Some by (simp add: engineComplete_def)
  next
    case True
    let ?w1 = "w\<lparr>running := removeAll i (running w)\<rparr>"
    have refs: "onComplete_start c \<noteq> Some p" "onComplete_caller c \<noteq> Some (ResolvePromise p)"
      using d True Some by (auto simp: unreachable_def referenced_def list_ex_iff)
    have d1: "unreachable ?w1 p"
      using d by (auto simp: unreachable_def referenced_def list_ex_iff isSettled_def)
    show ?thesis
      using Some True d1 refs
      by (auto simp: engineComplete_def Let_def unreachable_call_user unreachable_invoke unreachable_resolve
          split: engine_kind.splits option.splits)
  qed
qed

lemma unreachable_engineUpdate: "unreachable w p \<Longrightarrow> unreachable (engineUpdate i v w) p"
  by (auto simp: engineUpdate_def unreachable_call_user unreachable_mv_set split: option.splits engine_kind.splits)

lemma unreachable_clear_at: "unreachable w p \<Longrightarrow> unreachable (clear_at a w) p"
  by (auto simp: clear_at_def unreachable_def isSettled_def referenced_def split: option.splits)

lemma unreachable_clears: "unreachable w p \<Longrightarrow> unreachable (foldl (\<lambda>u a. clear_at a u) w as) p"
  by (induction as arbitrary: w) (simp_all add: unreachable_clear_at)

lemma unreachable_run_microtasks:
  assumes "unreachable w p"
  shows "unreachable (run_microtasks w) p"
proof -
  have "unreachable (foldl (\<lambda>u a. clear_at a u) w (microtasks w)) p"
    using assms by (rule unreachable_clears)
  then show ?thesis
    unfolding run_microtasks_def Let_def by (rule unreachable_fields) simp_all
qed

lemma unreachable_exec: "unreachable w p \<Longrightarrow> exec L vs act w = Inr w' \<Longrightarrow> unreachable w' p"
proof (cases act)
  case (Push key v tr f)
  then show "unreachable w p \<Longrightarrow> exec L vs act w = Inr w' \<Longrightarrow> ?thesis"
    by (auto intro: unreachable_push)
next
  case (Apply vref)
  then show "unreachable w p \<Longrightarrow> exec L vs act w = Inr w' \<Longrightarrow> ?thesis"
    by (auto split: sum.splits dest: unreachable_apply_variant)
next
  case Leave
  then show "unreachable w p \<Longrightarrow> exec L vs act w = Inr w' \<Longrightarrow> ?thesis"
    by (auto dest: unreachable_leave)
next
  case (StopValue key)
  then show "unreachable w p \<Longrightarrow> exec L vs act w = Inr w' \<Longrightarrow> ?thesis"
    by (auto split: option.splits intro: unreachable_mv_stop)
next
  case (EngineComplete i)
  then show "unreachable w p \<Longrightarrow> exec L vs act w = Inr w' \<Longrightarrow> ?thesis"
    by (auto intro: unreachable_engineComplete)
next
  case (EngineUpdate i v)
  then show "unreachable w p \<Longrightarrow> exec L vs act w = Inr w' \<Longrightarrow> ?thesis"
    by (auto intro: unreachable_engineUpdate)
next
  case (NewFrame fd)
  then show "unreachable w p \<Longrightarrow> exec L vs act w = Inr w' \<Longrightarrow> ?thesis"
    by (auto intro: unreachable_fields)
next
  case (CheckVelocity key)
  then show "unreachable w p \<Longrightarrow> exec L vs act w = Inr w' \<Longrightarrow> ?thesis"
    by (auto split: option.splits intro: unreachable_fields)
qed

lemma unreachable_exec_all: "unreachable w p \<Longrightarrow> unreachable (exec_all L vs acts w) p"
proof (induction acts arbitrary: w)
  case Nil
  then show ?case by simp
next
  case (Cons act acts)
  show ?case
  proof (cases "exec L vs act w")
    case (Inl e)
    then show ?thesis using Cons.prems by simp
  next
    case (Inr w1)
    then have "unreachable w1 p" using Cons.prems unreachable_exec by blast
    then show ?thesis using Inr Cons.IH by simp
  qed
qed

lemma unreachable_run_task: "unreachable w p \<Longrightarrow> unreachable (run_task L vs acts w) p"
  by (simp add: run_task_def unreachable_exec_all unreachable_run_microtasks)

lemma unreachable_run_tasks: "unreachable w p \<Longrightarrow> unreachable (run_tasks L vs tasks w) p"
  unfolding run_tasks_def by (induction tasks arbitrary: w) (simp_all add: unreachable_run_task)

lemma wf_iff:
  "wellformed w \<longleftrightarrow>
     (\<forall>k a. (k, a) \<in> set (motionValues w) \<longrightarrow> store w a \<noteq> None)
     \<and> (\<forall>q \<in> set (settled w). q < promises w)
     \<and> (\<forall>i c p. i \<in> set (running w) \<longrightarrow> calls w i = Some c \<longrightarrow> p \<in> set (call_promises c)
          \<longrightarrow> p < promises w)"
  by (auto simp: wellformed_def list_all_iff split: option.splits)

lemma callback_ok_iff: "callback_ok w cb \<longleftrightarrow> (\<forall>p \<in> set (callback_promises cb). p < promises w)"
  by (simp add: callback_ok_def list_all_iff)

lemmas wf_defs = wf_iff callback_ok_iff

lemma wf_resolve: "wellformed w \<Longrightarrow> q < promises w \<Longrightarrow> wellformed (resolve q w)"
  by (auto simp: wf_defs resolve_def isSettled_def)

lemma wf_call_user: "wellformed w \<Longrightarrow> wellformed (call_user f w)"
  by (auto simp: wf_defs call_user_def)

lemma wf_invoke: "wellformed w \<Longrightarrow> callback_ok w cb \<Longrightarrow> wellformed (invoke cb w)"
  by (cases "(cb, w)" rule: invoke.cases)
     (auto simp: wf_resolve wf_call_user callback_ok_iff callback_promises_def)

lemma wf_mv_set: "wellformed w \<Longrightarrow> wellformed (mv_set a v w)"
  by (auto simp: wf_defs mv_set_def Let_def split: option.splits)

lemma wf_mv_stop: "wellformed w \<Longrightarrow> wellformed (mv_stop a w)"
  by (auto simp: wf_defs mv_stop_def Let_def split: option.splits stop_fn.splits)

lemma promises_resolve [simp]: "promises (resolve q w) = promises w"
  by (simp add: resolve_def)
lemma promises_call_user [simp]: "promises (call_user f w) = promises w"
  by (simp add: call_user_def)
lemma promises_invoke [simp]: "promises (invoke cb w) = promises w"
  by (cases "(cb, w)" rule: invoke.cases) simp_all
lemma promises_mv_set [simp]: "promises (mv_set a v w) = promises w"
  by (simp add: mv_set_def Let_def split: option.splits)
lemma promises_mv_stop [simp]: "promises (mv_stop a w) = promises w"
  by (simp add: mv_stop_def Let_def split: option.splits stop_fn.splits)

lemma callback_ok_promises: "callback_ok w cb \<Longrightarrow> promises w \<le> promises u \<Longrightarrow> callback_ok u cb"
  by (auto simp: callback_ok_iff)

lemma wf_immediateSet:
  "wellformed w \<Longrightarrow> q < promises w \<Longrightarrow> callback_ok w (a_onComplete an) \<Longrightarrow>
   wellformed (snd (immediateSet an q w))"
  by (simp add: immediateSet_def Let_def wf_resolve wf_invoke wf_call_user wf_mv_set
      callback_ok_promises [where w = w])

lemma callback_promises_None [simp]: "callback_promises None = []"
  by (simp add: callback_promises_def)

lemma engineCall_promises:
  "set (call_promises (engineCall an q w)) \<subseteq> insert q (set (callback_promises (a_onComplete an)))"
  by (auto simp: engineCall_def Let_def call_promises_def)

lemma wf_engineStart:
  assumes "wellformed w" "q < promises w" "callback_ok w (a_onComplete an)"
  shows "wellformed (snd (engineStart an q w))"
proof -
  have "\<forall>p \<in> set (call_promises (engineCall an q w)). p < promises w"
    using engineCall_promises [of an q w] assms(2,3) by (auto simp: callback_ok_iff)
  then show ?thesis
    using assms(1) unfolding engineStart_def Let_def wf_iff by (auto split: if_splits)
qed

lemma wf_runAnimation:
  "wellformed w \<Longrightarrow> q < promises w \<Longrightarrow> callback_ok w (a_onComplete an) \<Longrightarrow>
   wellformed (snd (runAnimation an q w))"
  by (simp add: runAnimation_def wf_immediateSet wf_engineStart split: strategy.splits)

lemma wf_more_promises: "wellformed w \<Longrightarrow> wellformed (w\<lparr>promises := Suc (promises w)\<rparr>)"
  by (fastforce simp: wf_defs)

lemma wf_mv_start:
  assumes "wellformed w" "callback_ok w (a_onComplete an)"
  shows "wellformed (snd (mv_start a an w))"
proof -
  let ?w1 = "mv_stop a w"
  let ?q = "promises ?w1"
  let ?w2 = "?w1\<lparr>promises := Suc ?q\<rparr>"
  have w2: "wellformed ?w2" using assms(1) by (intro wf_more_promises wf_mv_stop)
  have cb: "callback_ok ?w2 (a_onComplete an)"
    using assms(2) by (rule callback_ok_promises) simp
  have "wellformed (snd (runAnimation an ?q ?w2))"
    using w2 _ cb by (rule wf_runAnimation) simp
  moreover obtain h w3 where r: "runAnimation an ?q ?w2 = (h, w3)"
    by (cases "runAnimation an ?q ?w2")
  ultimately have w3: "wellformed w3" by simp
  show ?thesis
    using w3 r by (auto simp: mv_start_def Let_def wf_iff split: option.splits)
qed

lemma wf_get_value: "wellformed w \<Longrightarrow> wellformed (snd (get_value k f w))"
  by (auto simp: get_value_def Let_def wf_iff split: option.splits)

lemma promises_get_value [simp]: "promises (snd (get_value k f w)) = promises w"
  by (simp add: get_value_def Let_def split: option.splits)

lemma wf_push:
  assumes "wellformed w" "callback_ok w cb"
  shows "wellformed (push L key v tr cb w)"
proof -
  obtain a w1 where g: "get_value key (obj_get (motionProperties w) key) w = (a, w1)"
    by (cases "get_value key (obj_get (motionProperties w) key) w")
  have w1: "wellformed w1"
    using wf_get_value [OF assms(1), of key "obj_get (motionProperties w) key"] g by simp
  have "promises w1 = promises w"
    using promises_get_value [of key "obj_get (motionProperties w) key" w] g by simp
  then have cb: "callback_ok w1 cb" using assms(2) by (simp add: callback_ok_iff)
  show ?thesis
    using g w1 cb by (simp add: push_def Let_def wf_mv_set wf_mv_start)
qed

lemma promises_runAnimation [simp]: "promises (snd (runAnimation an q w)) = promises w"
  by (simp add: runAnimation_def immediateSet_def engineStart_def Let_def split: strategy.splits)

lemma promises_mv_start [simp]: "promises (snd (mv_start a an w)) = Suc (promises w)"
proof -
  obtain h w3 where r: "runAnimation an (promises w) (mv_stop a w\<lparr>promises := Suc (promises w)\<rparr>) = (h, w3)"
    by (cases "runAnimation an (promises w) (mv_stop a w\<lparr>promises := Suc (promises w)\<rparr>)")
  have "promises w3 = Suc (promises w)"
    using promises_runAnimation [of an "promises w" "mv_stop a w\<lparr>promises := Suc (promises w)\<rparr>"] r
    by simp
  then show ?thesis using r by (simp add: mv_start_def Let_def split: option.splits)
qed

lemma promises_push: "promises w \<le> promises (push L key v tr cb w)"
proof -
  obtain a w1 where g: "get_value key (obj_get (motionProperties w) key) w = (a, w1)"
    by (cases "get_value key (obj_get (motionProperties w) key) w")
  have "promises w1 = promises w"
    using promises_get_value [of key "obj_get (motionProperties w) key" w] g by simp
  then show ?thesis using g by (simp add: push_def Let_def)
qed

lemma apply_entries_props:
  "wellformed w \<Longrightarrow> apply_entries L variant es w = (ps, w') \<Longrightarrow>
   wellformed w' \<and> promises w \<le> promises w' \<and> distinct ps
   \<and> (\<forall>p \<in> set ps. promises w \<le> p \<and> p < promises w')
   \<and> length ps = length (filter (\<lambda>(k, v). k \<noteq> ''transition'') es)"
proof (induction es arbitrary: w ps w')
  case Nil
  then show ?case by simp
next
  case (Cons e es)
  obtain key v where e: "e = (key, v)" by (cases e)
  show ?case
  proof (cases "key = ''transition''")
    case True
    then show ?thesis using Cons e by simp
  next
    case False
    let ?q = "promises w"
    let ?w1 = "w\<lparr>promises := Suc ?q\<rparr>"
    let ?tr = "as_obj (js_or (obj_get variant ''transition'')
                    (Obj (getDefaultTransition key (obj_get variant key))))"
    let ?w2 = "push L key v ?tr (Some (ResolvePromise ?q)) ?w1"
    obtain qs w3 where r: "apply_entries L variant es ?w2 = (qs, w3)"
      by (cases "apply_entries L variant es ?w2")
    have ps: "ps = ?q # qs" and w': "w' = w3"
      using Cons.prems(2) e False r by (simp_all add: Let_def)
    have "wellformed ?w1" using Cons.prems(1) by (rule wf_more_promises)
    then have w2: "wellformed ?w2"
      by (rule wf_push) (simp add: callback_ok_iff callback_promises_def)
    have m: "Suc ?q \<le> promises ?w2" using promises_push [of ?w1 L key v ?tr] by simp
    from Cons.IH [OF w2 r] m show ?thesis
      unfolding ps w' using e False by auto
  qed
qed

lemma wf_apply_variant:
  assumes "wellformed w" "apply_variant L vs vref w = Inr (ps, w')"
  shows "wellformed w'"
proof -
  obtain variant where "apply_entries L variant variant w = (ps, w')"
    using assms(2) by (auto simp: apply_variant_def split: variant_ref.splits sum.splits)
  with apply_entries_props [OF assms(1)] show ?thesis by blast
qed

lemma wf_fields:
  "wellformed w \<Longrightarrow> motionValues u = motionValues w \<Longrightarrow> dom (store w) \<subseteq> dom (store u)
   \<Longrightarrow> settled u = settled w \<Longrightarrow> promises u = promises w \<Longrightarrow> running u = running w
   \<Longrightarrow> calls u = calls w \<Longrightarrow> wellformed u"
  unfolding wf_iff by (auto simp: dom_def subset_iff)

lemma wf_leave:
  assumes "wellformed w" "leave L vs w = Inr w'"
  shows "wellformed w'"
proof (cases "case map_of vs ''leave'' of Some v \<Rightarrow> Some v | None \<Rightarrow> map_of vs ''initial''")
  case None
  then have "w' = w\<lparr>doneCalls := Suc (doneCalls w)\<rparr>"
    using assms(2) by (simp add: leave_def)
  then show ?thesis using assms(1) by (auto intro: wf_fields)
next
  case (Some v)
  then obtain ps w1 where a: "apply_variant L vs (Inline v) w = Inr (ps, w1)"
    and w': "w' = w1\<lparr>awaiting := awaiting w1 @ [ps]\<rparr>"
    using assms(2) by (auto simp: leave_def split: sum.splits)
  have "wellformed w1" using assms(1) a by (rule wf_apply_variant)
  then show ?thesis unfolding w' by (rule wf_fields) simp_all
qed

lemma wf_engineComplete: "wellformed w \<Longrightarrow> wellformed (engineComplete i w)"
proof (cases "calls w i")
  case None
  then show "wellformed w \<Longrightarrow> ?thesis" by (simp add: engineComplete_def)
next
  case (Some c)
  assume d: "wellformed w"
  show ?thesis
  proof (cases "i \<in> set (running w)")
    case False
    then show ?thesis using d Some by (simp add: engineComplete_def)
  next
    case True
    let ?w1 = "w\<lparr>running := removeAll i (running w)\<rparr>"
    have refs: "\<forall>p \<in> set (call_promises c). p < promises w"
      using d True Some unfolding wf_iff by blast
    have d1: "wellformed ?w1"
      using d unfolding wf_iff by auto
    have cb: "callback_ok w0 (onComplete_caller c)" if "promises w0 = promises w" for w0
      using refs that by (auto simp: callback_ok_iff call_promises_def)
    have st: "onComplete_start c = Some p \<Longrightarrow> p < promises w" for p
      using refs by (auto simp: call_promises_def)
    show ?thesis
      using Some True d1 cb st
      by (auto simp: engineComplete_def Let_def wf_call_user wf_invoke wf_resolve
          split: engine_kind.splits option.splits)
  qed
qed

lemma wf_engineUpdate: "wellformed w \<Longrightarrow> wellformed (engineUpdate i v w)"
  by (auto simp: engineUpdate_def wf_call_user wf_mv_set split: option.splits engine_kind.splits)

lemma wf_clear_at: "wellformed w \<Longrightarrow> wellformed (clear_at a w)"
  by (auto simp: clear_at_def split: option.splits intro: wf_fields)

lemma wf_clears: "wellformed w \<Longrightarrow> wellformed (foldl (\<lambda>u a. clear_at a u) w as)"
  by (induction as arbitrary: w) (simp_all add: wf_clear_at)

lemma wf_run_microtasks:
  assumes "wellformed w"
  shows "wellformed (run_microtasks w)"
proof -
  have "wellformed (foldl (\<lambda>u a. clear_at a u) w (microtasks w))"
    using assms by (rule wf_clears)
  then show ?thesis
    unfolding run_microtasks_def Let_def by (rule wf_fields) simp_all
qed

lemma wf_exec: "wellformed w \<Longrightarrow> exec L vs act w = Inr w' \<Longrightarrow> wellformed w'"
proof (cases act)
  case (Push key v tr f)
  then show "wellformed w \<Longrightarrow> exec L vs act w = Inr w' \<Longrightarrow> ?thesis"
    by (auto intro!: wf_push simp: callback_ok_iff callback_promises_def)
next
  case (Apply vref)
  then show "wellformed w \<Longrightarrow> exec L vs act w = Inr w' \<Longrightarrow> ?thesis"
    by (auto split: sum.splits dest: wf_apply_variant)
next
  case Leave
  then show "wellformed w \<Longrightarrow> exec L vs act w = Inr w' \<Longrightarrow> ?thesis"
    by (auto dest: wf_leave)
next
  case (StopValue key)
  then show "wellformed w \<Longrightarrow> exec L vs act w = Inr w' \<Longrightarrow> ?thesis"
    by (auto split: option.splits intro: wf_mv_stop)
next
  case (EngineComplete i)
  then show "wellformed w \<Longrightarrow> exec L vs act w = Inr w' \<Longrightarrow> ?thesis"
    by (auto intro: wf_engineComplete)
next
  case (EngineUpdate i v)
  then show "wellformed w \<Longrightarrow> exec L vs act w = Inr w' \<Longrightarrow> ?thesis"
    by (auto intro: wf_engineUpdate)
next
  case (NewFrame fd)
  then show "wellformed w \<Longrightarrow> exec L vs act w = Inr w' \<Longrightarrow> ?thesis"
    by (auto intro: wf_fields)
next
  case (CheckVelocity key)
  then show "wellformed w \<Longrightarrow> exec L vs act w = Inr w' \<Longrightarrow> ?thesis"
    by (auto split: option.splits intro: wf_fields)
qed

lemma wf_exec_all: "wellformed w \<Longrightarrow> wellformed (exec_all L vs acts w)"
proof (induction acts arbitrary: w)
  case Nil
  then show ?case by simp
next
  case (Cons act acts)
  show ?case
  proof (cases "exec L vs act w")
    case (Inl e)
    then show ?thesis using Cons.prems by simp
  next
    case (Inr w1)
    then have "wellformed w1" using Cons.prems wf_exec by blast
    then show ?thesis using Inr Cons.IH by simp
  qed
qed

lemma wf_run_task: "wellformed w \<Longrightarrow> wellformed (run_task L vs acts w)"
  by (simp add: run_task_def wf_exec_all wf_run_microtasks)

lemma wf_run_tasks: "wellformed w \<Longrightarrow> wellformed (run_tasks L vs tasks w)"
  unfolding run_tasks_def by (induction tasks arbitrary: w) (simp_all add: wf_run_task)

lemma wf_newWorld: "wellformed (newWorld bag)"
  by (simp add: wellformed_def newWorld_def)

lemma get_value_props:
  assumes "wellformed w" "get_value key f w = (a, w1)"
  shows "map_of (motionValues w1) key = Some a" "store w1 a \<noteq> None"
    "map_of (motionValues w) key = Some a' \<Longrightarrow> a = a' \<and> w1 = w"
    "map_of (motionValues w) key = None \<Longrightarrow> store w1 a = Some ((MotionValue f)\<lparr>updateSubscribers := [key]\<rparr>)"
    "calls w1 = calls w" "engineCalls w1 = engineCalls w" "running w1 = running w"
    "settled w1 = settled w" "invoked w1 = invoked w" "microtasks w1 = microtasks w"
    "reactions w1 = reactions w" "promises w1 = promises w" "awaiting w1 = awaiting w"
    "doneCalls w1 = doneCalls w" "frame w1 = frame w"
  using assms
  by (auto simp: get_value_def Let_def wf_iff map_add_def split: option.splits dest!: map_of_SomeD)

lemma get_value_current:
  assumes "wellformed w" "get_value key (obj_get (motionProperties w) key) w = (a, w1)"
  shows "\<exists>mv. store w1 a = Some mv \<and> current mv = currentOf w key"
  using assms
proof (cases "map_of (motionValues w) key")
  case None
  then show ?thesis using assms(2)
    by (auto simp: get_value_def Let_def currentOf_def MotionValue_def)
next
  case (Some a')
  then have "(key, a') \<in> set (motionValues w)" by (rule map_of_SomeD)
  then obtain mv where "store w a' = Some mv" using assms(1) unfolding wf_iff by blast
  then show ?thesis using assms(2) Some
    by (auto simp: get_value_def currentOf_def)
qed

lemma push_immediate_eq:
  assumes "truthy (obj_get tr ''immediate'')"
    "get_value key (obj_get (motionProperties w) key) w = (a, w1)"
  shows "push L key v tr cb w = mv_set a v w1"
  using assms by (simp add: push_def)

lemma mv_set_fields:
  "calls (mv_set a v w) = calls w" "engineCalls (mv_set a v w) = engineCalls w"
  "running (mv_set a v w) = running w" "settled (mv_set a v w) = settled w"
  "invoked (mv_set a v w) = invoked w" "microtasks (mv_set a v w) = microtasks w"
  "reactions (mv_set a v w) = reactions w" "motionValues (mv_set a v w) = motionValues w"
  "awaiting (mv_set a v w) = awaiting w" "doneCalls (mv_set a v w) = doneCalls w"
  by (simp_all add: mv_set_def Let_def split: option.splits)

lemma mv_set_store:
  "store w a = Some mv \<Longrightarrow>
   store (mv_set a v w) a = Some (updateAndNotify (frame w) v mv)"
  by (simp add: mv_set_def Let_def)

lemma updateAndNotify_fields [simp]:
  "current (updateAndNotify fd v mv) = v"
  "prev (updateAndNotify fd v mv) = current mv"
  "stopAnimation (updateAndNotify fd v mv) = stopAnimation mv"
  "updateSubscribers (updateAndNotify fd v mv) = updateSubscribers mv"
  "canTrackVelocity (updateAndNotify fd v mv) = canTrackVelocity mv"
  by (simp_all add: updateAndNotify_def Let_def)

lemma fresh_unreachable:
  "wellformed w \<Longrightarrow> unreachable (w\<lparr>promises := Suc (promises w)\<rparr>) (promises w)"
  unfolding wf_iff unreachable_def isSettled_def referenced_def list_ex_iff
  by (fastforce simp: call_promises_def callback_promises_def split: option.splits)

lemma immediate_transition:
  "truthy (js_prop t ''immediate'') \<Longrightarrow> truthy (obj_get (as_obj (js_or t d)) ''immediate'')"
  by (cases t) (simp_all add: js_prop_def js_or_def as_obj_def)

lemma unreachable_push_immediate:
  assumes "unreachable w p" "truthy (obj_get tr ''immediate'')"
  shows "unreachable (push L key v tr cb w) p"
proof -
  obtain a w1 where g: "get_value key (obj_get (motionProperties w) key) w = (a, w1)"
    by (cases "get_value key (obj_get (motionProperties w) key) w")
  have "unreachable w1 p"
    using unreachable_get_value [OF assms(1), of key "obj_get (motionProperties w) key"] g by simp
  then show ?thesis
    unfolding push_immediate_eq [OF assms(2) g] by (rule unreachable_mv_set)
qed

lemma apply_entries_immediate:
  "wellformed w \<Longrightarrow> truthy (js_prop (obj_get variant ''transition'') ''immediate'') \<Longrightarrow>
   apply_entries L variant es w = (ps, w') \<Longrightarrow> \<forall>p \<in> set ps. unreachable w' p"
proof (induction es arbitrary: w ps w')
  case Nil
  then show ?case by simp
next
  case (Cons e es)
  obtain key v where e: "e = (key, v)" by (cases e)
  show ?case
  proof (cases "key = ''transition''")
    case True
    then show ?thesis using Cons e by simp
  next
    case False
    let ?q = "promises w"
    let ?w1 = "w\<lparr>promises := Suc ?q\<rparr>"
    let ?tr = "as_obj (js_or (obj_get variant ''transition'')
                    (Obj (getDefaultTransition key (obj_get variant key))))"
    let ?w2 = "push L key v ?tr (Some (ResolvePromise ?q)) ?w1"
    obtain qs w3 where r: "apply_entries L variant es ?w2 = (qs, w3)"
      by (cases "apply_entries L variant es ?w2")
    have ps: "ps = ?q # qs" and w': "w' = w3"
      using Cons.prems(3) e False r by (simp_all add: Let_def)
    have imm: "truthy (obj_get ?tr ''immediate'')"
      using Cons.prems(2) by (rule immediate_transition)
    have "wellformed ?w1" using Cons.prems(1) by (rule wf_more_promises)
    then have w2: "wellformed ?w2"
      by (rule wf_push) (simp add: callback_ok_iff callback_promises_def)
    have "unreachable ?w1 ?q" using Cons.prems(1) by (rule fresh_unreachable)
    then have "unreachable ?w2 ?q" using imm by (rule unreachable_push_immediate)
    then have q: "unreachable w3 ?q"
      using unreachable_apply_entries [of ?w2 ?q L variant es] r by simp
    from Cons.IH [OF w2 Cons.prems(2) r] q show ?thesis
      unfolding ps w' by simp
  qed
qed

lemma unreachable_never_settles:
  "unreachable w p \<Longrightarrow> \<not> isSettled (run_tasks L vs tasks w) p"
  using unreachable_run_tasks [of w p L vs tasks] by (simp add: unreachable_def)

lemma motionValues_simple [simp]:
  "motionValues (resolve q w) = motionValues w"
  "motionValues (call_user f w) = motionValues w"
  "motionValues (mv_stop a w) = motionValues w"
  by (simp_all add: resolve_def call_user_def mv_stop_def Let_def
      split: option.splits stop_fn.splits)

lemma motionValues_invoke [simp]: "motionValues (invoke cb w) = motionValues w"
  by (cases "(cb, w)" rule: invoke.cases) simp_all

lemma motionValues_runAnimation [simp]:
  "motionValues (snd (runAnimation an q w)) = motionValues w"
  by (simp add: runAnimation_def immediateSet_def engineStart_def Let_def mv_set_fields
      split: strategy.splits)

lemma motionValues_mv_start [simp]: "motionValues (snd (mv_start a an w)) = motionValues w"
proof -
  let ?w2 = "mv_stop a w\<lparr>promises := Suc (promises w)\<rparr>"
  obtain h w3 where r: "runAnimation an (promises w) ?w2 = (h, w3)"
    by (cases "runAnimation an (promises w) ?w2")
  have "motionValues (snd (runAnimation an (promises w) ?w2)) = motionValues ?w2"
    by (rule motionValues_runAnimation)
  then have "motionValues w3 = motionValues w" using r by simp
  then show ?thesis using r by (simp add: mv_start_def Let_def split: option.splits)
qed

lemma keys_get_value:
  "fst ` set (motionValues (snd (get_value key f w))) = insert key (fst ` set (motionValues w))"
  by (auto simp: get_value_def Let_def split: option.splits dest!: map_of_SomeD)
     (force simp: map_of_eq_None_iff)+

lemma keys_push:
  "fst ` set (motionValues (push L key v tr cb w)) = insert key (fst ` set (motionValues w))"
proof -
  obtain a w1 where g: "get_value key (obj_get (motionProperties w) key) w = (a, w1)"
    by (cases "get_value key (obj_get (motionProperties w) key) w")
  have "fst ` set (motionValues w1) = insert key (fst ` set (motionValues w))"
    using keys_get_value [of key "obj_get (motionProperties w) key" w] g by simp
  then show ?thesis using g by (simp add: push_def Let_def mv_set_fields)
qed

lemma keys_apply_entries:
  "apply_entries L variant es w = (ps, w') \<Longrightarrow>
   fst ` set (motionValues w') =
     fst ` set (motionValues w) \<union> {k \<in> fst ` set es. k \<noteq> ''transition''}"
proof (induction es arbitrary: w ps w')
  case Nil
  then show ?case by simp
next
  case (Cons e es)
  obtain key v where e: "e = (key, v)" by (cases e)
  show ?case
  proof (cases "key = ''transition''")
    case True
    then show ?thesis using Cons e by auto
  next
    case False
    let ?q = "promises w"
    let ?w1 = "w\<lparr>promises := Suc ?q\<rparr>"
    let ?tr = "as_obj (js_or (obj_get variant ''transition'')
                    (Obj (getDefaultTransition key (obj_get variant key))))"
    let ?w2 = "push L key v ?tr (Some (ResolvePromise ?q)) ?w1"
    obtain qs w3 where r: "apply_entries L variant es ?w2 = (qs, w3)"
      by (cases "apply_entries L variant es ?w2")
    have w': "w' = w3"
      using Cons.prems e False r by (simp_all add: Let_def)
    have k2: "fst ` set (motionValues ?w2) = insert key (fst ` set (motionValues w))"
      using keys_push [of L key v ?tr _ ?w1] by simp
    from Cons.IH [OF r] k2 show ?thesis
      unfolding w' using e False by auto
  qed
qed

lemma isSettled_resolve [simp]: "isSettled (resolve p w) q \<longleftrightarrow> q = p \<or> isSettled w q"
  by (auto simp: resolve_def isSettled_def)

lemma isSettled_resolves:
  "isSettled (foldl (\<lambda>x p. resolve p x) u qs) q \<longleftrightarrow> q \<in> set qs \<or> isSettled u q"
  by (induction qs arbitrary: u) auto

lemma fields_resolve [simp]:
  "store (resolve q w) = store w" "calls (resolve q w) = calls w"
  "engineCalls (resolve q w) = engineCalls w" "running (resolve q w) = running w"
  "invoked (resolve q w) = invoked w" "frame (resolve q w) = frame w"
  by (simp_all add: resolve_def)

lemma fields_call_user [simp]:
  "store (call_user f w) = store w" "calls (call_user f w) = calls w"
  "engineCalls (call_user f w) = engineCalls w" "running (call_user f w) = running w"
  "settled (call_user f w) = settled w" "frame (call_user f w) = frame w"
  "reactions (call_user f w) = reactions w" "microtasks (call_user f w) = microtasks w"
  "invoked (call_user f w) = invoked w @ (if truthy f then [f] else [])"
  by (simp_all add: call_user_def)

lemma isSettled_call_user [simp]: "isSettled (call_user f w) p = isSettled w p"
  by (simp add: isSettled_def)

lemma fields_invoke [simp]:
  "store (invoke cb w) = store w" "calls (invoke cb w) = calls w"
  "engineCalls (invoke cb w) = engineCalls w" "running (invoke cb w) = running w"
  "frame (invoke cb w) = frame w"
  by (cases "(cb, w)" rule: invoke.cases; simp)+

lemma invoked_invoke:
  "invoked (invoke cb w) =
     invoked w @ (case cb of Some (UserFunction f) \<Rightarrow> if truthy f then [f] else [] | _ \<Rightarrow> [])"
  by (cases "(cb, w)" rule: invoke.cases) simp_all

lemma isSettled_invoke:
  "isSettled (invoke cb w) p \<longleftrightarrow> cb = Some (ResolvePromise p) \<or> isSettled w p"
  by (cases "(cb, w)" rule: invoke.cases) auto

lemma isSettled_mv_set [simp]: "isSettled (mv_set a v w) p = isSettled w p"
  by (simp add: isSettled_def mv_set_fields)

lemma immediateSet_result:
  assumes "store w a = Some mv" "a_value an = a"
  shows "fst (immediateSet an q w) = NoopStop"
    "store (snd (immediateSet an q w)) a = Some (updateAndNotify (frame w) (a_target an) mv)"
    "calls (snd (immediateSet an q w)) = calls w"
    "engineCalls (snd (immediateSet an q w)) = engineCalls w"
    "running (snd (immediateSet an q w)) = running w"
    "isSettled (snd (immediateSet an q w)) p \<longleftrightarrow>
       p = q \<or> a_onComplete an = Some (ResolvePromise p) \<or> isSettled w p"
    "invoked (snd (immediateSet an q w)) =
       invoked w
       @ (if truthy (obj_get (a_transition an) ''onComplete'')
          then [obj_get (a_transition an) ''onComplete''] else [])
       @ (case a_onComplete an of
            Some (UserFunction f) \<Rightarrow> if truthy f then [f] else [] | _ \<Rightarrow> [])"
  using assms
  by (simp_all add: immediateSet_def Let_def mv_set_store mv_set_fields invoked_invoke
      isSettled_invoke)

lemma mv_stop_result:
  assumes "store w a = Some mv"
  shows "store (mv_stop a w) a = Some (clearAnimation mv)"
    "calls (mv_stop a w) = calls w" "engineCalls (mv_stop a w) = engineCalls w"
    "running (mv_stop a w) =
       (case stopAnimation mv of Some (EngineStop i) \<Rightarrow> removeAll i (running w) | _ \<Rightarrow> running w)"
    "settled (mv_stop a w) = settled w" "invoked (mv_stop a w) = invoked w"
    "frame (mv_stop a w) = frame w" "reactions (mv_stop a w) = reactions w"
    "microtasks (mv_stop a w) = microtasks w"
  using assms by (simp_all add: mv_stop_def Let_def split: option.splits stop_fn.splits)

lemma mv_start_immediate:
  assumes "store w a = Some mv" "a_value an = a" "a_strategy an = ImmediateSet"
  shows "fst (mv_start a an w) = promises w"
    "store (snd (mv_start a an w)) a =
       Some ((updateAndNotify (frame w) (a_target an) (clearAnimation mv))
               \<lparr>stopAnimation := Some NoopStop\<rparr>)"
    "calls (snd (mv_start a an w)) = calls w"
    "engineCalls (snd (mv_start a an w)) = engineCalls w"
    "running (snd (mv_start a an w)) =
       (case stopAnimation mv of Some (EngineStop i) \<Rightarrow> removeAll i (running w) | _ \<Rightarrow> running w)"
    "isSettled (snd (mv_start a an w)) p \<longleftrightarrow>
       p = promises w \<or> a_onComplete an = Some (ResolvePromise p) \<or> isSettled w p"
    "invoked (snd (mv_start a an w)) =
       invoked w
       @ (if truthy (obj_get (a_transition an) ''onComplete'')
          then [obj_get (a_transition an) ''onComplete''] else [])
       @ (case a_onComplete an of
            Some (UserFunction f) \<Rightarrow> if truthy f then [f] else [] | _ \<Rightarrow> [])"
proof -
  let ?w2 = "mv_stop a w\<lparr>promises := Suc (promises w)\<rparr>"
  note sr = mv_stop_result [OF assms(1)]
  have s2: "store ?w2 a = Some (clearAnimation mv)" using sr(1) by simp
  note ir = immediateSet_result [OF s2 assms(2), of "promises w"]
  obtain h w3 where r: "immediateSet an (promises w) ?w2 = (h, w3)"
    by (cases "immediateSet an (promises w) ?w2")
  have h: "h = NoopStop" using ir(1) r by simp
  have st3: "store w3 a = Some (updateAndNotify (frame w) (a_target an) (clearAnimation mv))"
    using ir(2) r sr(7) by simp
  have set3: "isSettled w3 (promises w)" using ir(6) [of "promises w"] r by simp
  have eq: "mv_start a an w =
      (promises w,
       w3\<lparr>store := (store w3)(a \<mapsto>
               (updateAndNotify (frame w) (a_target an) (clearAnimation mv))
                 \<lparr>stopAnimation := Some NoopStop\<rparr>),
          microtasks := microtasks w3 @ [a]\<rparr>)"
    using r h st3 set3 assms(3)
    by (simp add: mv_start_def Let_def runAnimation_def isSettled_def)
  show "fst (mv_start a an w) = promises w" using eq by simp
  show "store (snd (mv_start a an w)) a =
       Some ((updateAndNotify (frame w) (a_target an) (clearAnimation mv))
               \<lparr>stopAnimation := Some NoopStop\<rparr>)"
    using eq by simp
  show "calls (snd (mv_start a an w)) = calls w" using eq ir(3) r sr by simp
  show "engineCalls (snd (mv_start a an w)) = engineCalls w" using eq ir(4) r sr by simp
  show "running (snd (mv_start a an w)) =
       (case stopAnimation mv of Some (EngineStop i) \<Rightarrow> removeAll i (running w) | _ \<Rightarrow> running w)"
    using eq ir(5) r sr by simp
  show "isSettled (snd (mv_start a an w)) p \<longleftrightarrow>
       p = promises w \<or> a_onComplete an = Some (ResolvePromise p) \<or> isSettled w p"
    using eq ir(6) [of p] r sr(5) by (simp add: isSettled_def)
  show "invoked (snd (mv_start a an w)) =
       invoked w
       @ (if truthy (obj_get (a_transition an) ''onComplete'')
          then [obj_get (a_transition an) ''onComplete''] else [])
       @ (case a_onComplete an of
            Some (UserFunction f) \<Rightarrow> if truthy f then [f] else [] | _ \<Rightarrow> [])"
    using eq ir(7) r sr(6) by simp
qed

lemma done_simple [simp]:
  "doneCalls (resolve q w) = doneCalls w" "awaiting (resolve q w) = awaiting w"
  "doneCalls (call_user f w) = doneCalls w" "awaiting (call_user f w) = awaiting w"
  "doneCalls (mv_stop a w) = doneCalls w" "awaiting (mv_stop a w) = awaiting w"
  "doneCalls (mv_set a v w) = doneCalls w" "awaiting (mv_set a v w) = awaiting w"
  by (simp_all add: resolve_def call_user_def mv_stop_def mv_set_def Let_def
      split: option.splits stop_fn.splits)

lemma done_invoke [simp]:
  "doneCalls (invoke cb w) = doneCalls w" "awaiting (invoke cb w) = awaiting w"
  by (cases "(cb, w)" rule: invoke.cases; simp)+

lemma done_runAnimation [simp]:
  "doneCalls (snd (runAnimation an q w)) = doneCalls w"
  "awaiting (snd (runAnimation an q w)) = awaiting w"
  by (simp_all add: runAnimation_def immediateSet_def engineStart_def Let_def
      split: strategy.splits)

lemma done_mv_start [simp]:
  "doneCalls (snd (mv_start a an w)) = doneCalls w"
  "awaiting (snd (mv_start a an w)) = awaiting w"
proof -
  let ?w2 = "mv_stop a w\<lparr>promises := Suc (promises w)\<rparr>"
  obtain h w3 where r: "runAnimation an (promises w) ?w2 = (h, w3)"
    by (cases "runAnimation an (promises w) ?w2")
  have "doneCalls (snd (runAnimation an (promises w) ?w2)) = doneCalls ?w2"
    "awaiting (snd (runAnimation an (promises w) ?w2)) = awaiting ?w2"
    by (rule done_runAnimation)+
  then have "doneCalls w3 = doneCalls w" "awaiting w3 = awaiting w" using r by simp_all
  then show "doneCalls (snd (mv_start a an w)) = doneCalls w"
    "awaiting (snd (mv_start a an w)) = awaiting w"
    using r by (simp_all add: mv_start_def Let_def split: option.splits)
qed

lemma done_push [simp]:
  "doneCalls (push L key v tr cb w) = doneCalls w"
  "awaiting (push L key v tr cb w) = awaiting w"
proof -
  obtain a w1 where g: "get_value key (obj_get (motionProperties w) key) w = (a, w1)"
    by (cases "get_value key (obj_get (motionProperties w) key) w")
  have "doneCalls w1 = doneCalls w" "awaiting w1 = awaiting w"
    using g by (auto simp: get_value_def Let_def split: option.splits)
  then show "doneCalls (push L key v tr cb w) = doneCalls w"
    "awaiting (push L key v tr cb w) = awaiting w"
    using g by (simp_all add: push_def Let_def)
qed

lemma done_apply_entries:
  "apply_entries L variant es w = (ps, w') \<Longrightarrow>
   doneCalls w' = doneCalls w \<and> awaiting w' = awaiting w"
proof (induction es arbitrary: w ps w')
  case Nil
  then show ?case by simp
next
  case (Cons e es)
  obtain key v where e: "e = (key, v)" by (cases e)
  show ?case
  proof (cases "key = ''transition''")
    case True
    then show ?thesis using Cons e by auto
  next
    case False
    let ?w1 = "w\<lparr>promises := Suc (promises w)\<rparr>"
    let ?tr = "as_obj (js_or (obj_get variant ''transition'')
                    (Obj (getDefaultTransition key (obj_get variant key))))"
    let ?w2 = "push L key v ?tr (Some (ResolvePromise (promises w))) ?w1"
    obtain qs w3 where r: "apply_entries L variant es ?w2 = (qs, w3)"
      by (cases "apply_entries L variant es ?w2")
    have w': "w' = w3"
      using Cons.prems e False r by (simp_all add: Let_def)
    from Cons.IH [OF r] show ?thesis
      unfolding w' by simp
  qed
qed

lemma done_engineComplete [simp]:
  "doneCalls (engineComplete i w) = doneCalls w" "awaiting (engineComplete i w) = awaiting w"
  by (simp_all add: engineComplete_def Let_def split: option.splits engine_kind.splits)

lemma done_engineUpdate [simp]:
  "doneCalls (engineUpdate i v w) = doneCalls w" "awaiting (engineUpdate i v w) = awaiting w"
  by (simp_all add: engineUpdate_def Let_def split: option.splits engine_kind.splits)

lemma settled_clears [simp]: "settled (foldl (\<lambda>u a. clear_at a u) w as) = settled w"
  by (induction as arbitrary: w) (simp_all add: clear_at_def split: option.splits)

lemma done_clears [simp]:
  "doneCalls (foldl (\<lambda>u a. clear_at a u) w as) = doneCalls w"
  "awaiting (foldl (\<lambda>u a. clear_at a u) w as) = awaiting w"
  by (induction as arbitrary: w) (simp_all add: clear_at_def split: option.splits)

lemma aggregateSettled_cong: "settled u = settled w \<Longrightarrow> aggregateSettled u = aggregateSettled w"
  by (auto simp: aggregateSettled_def isSettled_def fun_eq_iff list_all_iff)

lemma run_microtasks_done:
  "doneCalls (run_microtasks u) = doneCalls u + length (filter (aggregateSettled u) (awaiting u))"
  "awaiting (run_microtasks u) = filter (\<lambda>ps. \<not> aggregateSettled u ps) (awaiting u)"
  "settled (run_microtasks u) = settled u"
  by (simp_all add: run_microtasks_def Let_def
      aggregateSettled_cong [OF settled_clears [of u "microtasks u"]])

lemma done_exec:
  "act \<noteq> Leave \<Longrightarrow> exec L vs act u = Inr u' \<Longrightarrow>
   doneCalls u' = doneCalls u \<and> awaiting u' = awaiting u"
  by (cases act)
     (auto simp: apply_variant_def split: sum.splits option.splits variant_ref.splits
        dest: done_apply_entries)

subsection \<open>Evaluating the transform functions\<close>

lemmas transform_defs =
  reactiveTransform_def join_def typeTransform_def getValueAsType_def getValueType_def
  valueTypes_def translateAlias_def integerString_def js_or_def obj_get_def isNumber_def
  obj_set_def digitChar_def

lemmas read_defs =
  stateFromTransform_def parseTransform_def parseValues_def endsWith_def isNaN_def

lemma digitsOf_numeral [simp]:
  "digitsOf (numeral k) n =
     (if n < 10 then [digitChar n]
      else digitsOf (pred_numeral k) (n div 10) @ [digitChar (n mod 10)])"
  by (simp add: numeral_eq_Suc)

lemma terms_append:
  "transformTerms R hw st acc =
     acc @ concat (map (\<lambda>(k, v). translateAlias k @ ''(''
                          @ toStr R (getValueAsType R v (getValueType k)) @ '') '')
                    (filter (\<lambda>(k, v). \<not> (hw \<and> (k = ''x'' \<or> k = ''y'' \<or> k = ''z''))) st))"
  by (induction st arbitrary: acc) auto

subsection \<open>The aggregate completion of apply (C1)\<close>

text \<open>
  C1. \<open>apply\<close> on a variant creates one promise for each entry other than
  \<open>transition\<close>, all new and distinct, and registers a MotionValue for exactly those
  keys: \<open>transition\<close> is never made an animated property. The aggregate completion,
  the \<open>Promise.all\<close> of these promises, is settled exactly when each of them is: after
  they are resolved in any order, with others in between, it is settled, and while one
  of them is not resolved, it is not. For a variant with no property it is settled at
  once.
\<close>

theorem apply_aggregate_completion:
  assumes "wellformed w" and "apply_variant L vs (Inline variant) w = Inr (ps, w')"
  shows "length ps = length (filter (\<lambda>(k, v). k \<noteq> ''transition'') variant)
     \<and> distinct ps \<and> (\<forall>p \<in> set ps. promises w \<le> p \<and> p < promises w')
     \<and> fst ` set (motionValues w') =
         fst ` set (motionValues w) \<union> {k \<in> fst ` set variant. k \<noteq> ''transition''}
     \<and> (''transition'' \<in> fst ` set (motionValues w')
          \<longleftrightarrow> ''transition'' \<in> fst ` set (motionValues w))
     \<and> (aggregateSettled u ps \<longleftrightarrow> (\<forall>p \<in> set ps. isSettled u p))
     \<and> (set ps \<subseteq> set qs \<longrightarrow> aggregateSettled (foldl (\<lambda>x p. resolve p x) u qs) ps)
     \<and> (p \<in> set ps \<and> p \<notin> set qs \<and> \<not> isSettled u p \<longrightarrow>
          \<not> aggregateSettled (foldl (\<lambda>x p. resolve p x) u qs) ps)
     \<and> (filter (\<lambda>(k, v). k \<noteq> ''transition'') variant = [] \<longrightarrow>
          ps = [] \<and> aggregateSettled w' ps)
     \<and> (map_of vs name = Some variant \<longrightarrow>
          apply_variant L vs (Named name) w = Inr (ps, w'))"
proof -
  have ae: "apply_entries L variant variant w = (ps, w')"
    using assms(2) by (simp add: apply_variant_def)
  note props = apply_entries_props [OF assms(1) ae]
  note keys = keys_apply_entries [OF ae]
  have len: "length ps = length (filter (\<lambda>(k, v). k \<noteq> ''transition'') variant)"
    using props by blast
  have fresh: "distinct ps \<and> (\<forall>p \<in> set ps. promises w \<le> p \<and> p < promises w')"
    using props by blast
  have tr: "''transition'' \<in> fst ` set (motionValues w')
          \<longleftrightarrow> ''transition'' \<in> fst ` set (motionValues w)"
    unfolding keys by blast
  have agg: "aggregateSettled x ps \<longleftrightarrow> (\<forall>p \<in> set ps. isSettled x p)" for x
    by (simp add: aggregateSettled_def list_all_iff)
  have all_in: "set ps \<subseteq> set qs \<longrightarrow> aggregateSettled (foldl (\<lambda>x p. resolve p x) u qs) ps"
    unfolding agg isSettled_resolves by blast
  have one_out: "p \<in> set ps \<and> p \<notin> set qs \<and> \<not> isSettled u p \<longrightarrow>
          \<not> aggregateSettled (foldl (\<lambda>x p. resolve p x) u qs) ps"
    unfolding agg isSettled_resolves by blast
  have empty: "filter (\<lambda>(k, v). k \<noteq> ''transition'') variant = [] \<longrightarrow>
          ps = [] \<and> aggregateSettled w' ps"
    using len by (auto simp: aggregateSettled_def)
  have named: "map_of vs name = Some variant \<longrightarrow>
          apply_variant L vs (Named name) w = Inr (ps, w')"
    using ae by (simp add: apply_variant_def getVariantFromKey_def)
  show ?thesis
    using len fresh keys tr agg [of u] all_in one_out empty named by blast
qed

theorem apply_aggregate_completion_witness:
  "wellformed (newWorld [(''opacity'', Num 0)])
   \<and> (\<exists>w'. apply_variant \<lparr>complexTest = (\<lambda>s. False), complexNone = id, filterNone = id\<rparr> []
          (Inline [(''transition'', Obj [(''immediate'', Bool True)]), (''opacity'', Num 1)])
          (newWorld [(''opacity'', Num 0)]) = Inr ([0], w')
        \<and> fst ` set (motionValues w') = {''opacity''}
        \<and> \<not> aggregateSettled w' [0]
        \<and> aggregateSettled (foldl (\<lambda>x p. resolve p x) w' [0]) [0])"
proof -
  let ?L = "\<lparr>complexTest = (\<lambda>s. False), complexNone = id, filterNone = id\<rparr>"
  let ?v = "[(''transition'', Obj [(''immediate'', Bool True)]), (''opacity'', Num 1)]"
  let ?w = "newWorld [(''opacity'', Num 0)]"
  have h1: "wellformed ?w" by (simp add: wellformed_def newWorld_def)
  have "\<exists>w'. apply_variant ?L [] (Inline ?v) ?w = Inr ([0], w') \<and> settled w' = []"
    by (simp add: apply_variant_def newWorld_def push_def get_value_def mv_set_def
        value_defs motion_defs Let_def)
  then obtain w' where h2: "apply_variant ?L [] (Inline ?v) ?w = Inr ([0], w')"
    and s: "settled w' = []" by blast
  have m: "motionValues ?w = []" by (simp add: newWorld_def)
  have n: "\<not> aggregateSettled w' [0]"
    using s by (simp add: aggregateSettled_def isSettled_def)
  have "fst ` set (motionValues w') = {''opacity''}
        \<and> aggregateSettled (foldl (\<lambda>x p. resolve p x) w' [0]) [0]"
    using apply_aggregate_completion [OF h1 h2, of w' "[0]"] m by auto
  then show ?thesis using h1 h2 n by blast
qed

subsection \<open>Starting over a running animation (C2)\<close>

lemma running_runAnimation:
  "set (running (snd (runAnimation an q w))) \<subseteq> insert (engineCalls w) (set (running w))"
  by (auto simp: runAnimation_def immediateSet_def engineStart_def Let_def mv_set_fields
      split: strategy.splits)

text \<open>
  What \<open>stop\<close> and \<open>start\<close> do while the value holds the handle of its running
  animation: that animation leaves the running ones, and nothing is settled by the stop.
\<close>

lemma stop_cancels_held_animation:
  assumes "store w a = Some mv" and "stopAnimation mv = Some (EngineStop i)"
  shows "i \<notin> set (running (mv_stop a w))" "settled (mv_stop a w) = settled w"
    "i \<noteq> engineCalls w \<Longrightarrow> i \<notin> set (running (snd (mv_start a an w)))"
proof -
  show 1: "i \<notin> set (running (mv_stop a w))" and "settled (mv_stop a w) = settled w"
    using assms by (simp_all add: mv_stop_result)
  let ?w2 = "mv_stop a w\<lparr>promises := Suc (promises w)\<rparr>"
  obtain h w3 where r: "runAnimation an (promises w) ?w2 = (h, w3)"
    by (cases "runAnimation an (promises w) ?w2")
  have "set (running w3) \<subseteq> insert (engineCalls w) (set (running (mv_stop a w)))"
    using running_runAnimation [of an "promises w" ?w2] r
    by (simp add: mv_stop_result [OF assms(1)])
  moreover have "running (snd (mv_start a an w)) = running w3"
    using r by (simp add: mv_start_def Let_def split: option.splits)
  ultimately show "i \<notin> set (running (snd (mv_start a an w)))" if "i \<noteq> engineCalls w"
    using 1 that by auto
qed

lemmas task_defs = run_tasks_def run_task_def run_microtasks_def clear_at_def
  engineComplete_def aggregateSettled_def newWorld_def

text \<open>
  C2, on the code. On a subject whose bag has no opacity yet, one task pushes opacity
  twice: the first push sets it at once (its origin is undefined), the second starts
  animation 0, whose completion is promise 1. The \<open>then\<close> of the first push runs when
  the task ends and clears the handle the second push stored. A later push starts
  animation 1 and finds no handle to call: animation 0 keeps running beside it, and
  when the engine completes it, promise 1 settles. An explicit \<open>stop\<close> in place of the
  later push cancels nothing either.
\<close>

theorem start_after_stale_then_keeps_first_running:
  "running (run_tasks L vs
      [[Push ''opacity'' (Num 0) [(''duration'', Num 100)] Undefined,
        Push ''opacity'' (Num 1) [(''duration'', Num 100)] Undefined],
       [Push ''opacity'' (Num 2) [(''duration'', Num 100)] Undefined]]
      (newWorld [])) = [0, 1]
   \<and> map_option onComplete_start (calls (run_tasks L vs
      [[Push ''opacity'' (Num 0) [(''duration'', Num 100)] Undefined,
        Push ''opacity'' (Num 1) [(''duration'', Num 100)] Undefined],
       [Push ''opacity'' (Num 2) [(''duration'', Num 100)] Undefined]]
      (newWorld [])) 0) = Some (Some 1)
   \<and> isSettled (run_tasks L vs
      [[Push ''opacity'' (Num 0) [(''duration'', Num 100)] Undefined,
        Push ''opacity'' (Num 1) [(''duration'', Num 100)] Undefined],
       [Push ''opacity'' (Num 2) [(''duration'', Num 100)] Undefined],
       [EngineComplete 0]]
      (newWorld [])) 1
   \<and> running (run_tasks L vs
      [[Push ''opacity'' (Num 0) [(''duration'', Num 100)] Undefined,
        Push ''opacity'' (Num 1) [(''duration'', Num 100)] Undefined],
       [StopValue ''opacity'']]
      (newWorld [])) = [0]"
  by (simp add: task_defs world_defs value_defs motion_defs option_defs transition_defs
      Let_def)

theorem start_after_stale_then_keeps_first_running_witness:
  "running (run_tasks \<lparr>complexTest = (\<lambda>s. False), complexNone = id, filterNone = id\<rparr> []
      [[Push ''opacity'' (Num 0) [(''duration'', Num 100)] Undefined,
        Push ''opacity'' (Num 1) [(''duration'', Num 100)] Undefined],
       [Push ''opacity'' (Num 2) [(''duration'', Num 100)] Undefined]]
      (newWorld [])) = [0, 1]"
  using start_after_stale_then_keeps_first_running
    [of "\<lparr>complexTest = (\<lambda>s. False), complexNone = id, filterNone = id\<rparr>" "[]"]
  by simp

subsection \<open>The immediate-set fallback (C3)\<close>

text \<open>
  C3 as stated fails for a variant whose transition has \<open>immediate\<close>: \<open>push\<close>
  returns before \<open>getAnimation\<close> is asked. Applying \<open>{zIndex: 5, transition:
  {immediate: true}}\<close> writes 5 into the bag and creates the completion of zIndex,
  promise 0, and after the task and its microtasks no promise is settled.
\<close>

theorem immediate_flag_leaves_completion_unsettled_counterexample:
  "\<not> isAnimatable \<lparr>complexTest = startsWith ''#'', complexNone = id, filterNone = id\<rparr>
       ''zIndex'' (Num 5)
   \<and> promises (run_task \<lparr>complexTest = startsWith ''#'', complexNone = id, filterNone = id\<rparr>
        [] [Apply (Inline [(''zIndex'', Num 5),
                           (''transition'', Obj [(''immediate'', Bool True)])])]
        (newWorld [(''zIndex'', Num 1)])) = 1
   \<and> settled (run_task \<lparr>complexTest = startsWith ''#'', complexNone = id, filterNone = id\<rparr>
        [] [Apply (Inline [(''zIndex'', Num 5),
                           (''transition'', Obj [(''immediate'', Bool True)])])]
        (newWorld [(''zIndex'', Num 1)])) = []
   \<and> motionProperties
        (run_task \<lparr>complexTest = startsWith ''#'', complexNone = id, filterNone = id\<rparr>
        [] [Apply (Inline [(''zIndex'', Num 5),
                           (''transition'', Obj [(''immediate'', Bool True)])])]
        (newWorld [(''zIndex'', Num 1)])) = [(''zIndex'', Num 5)]"
  by (simp add: isAnimatable_def run_task_def run_microtasks_def apply_variant_def
      newWorld_def push_def get_value_def mv_set_def value_defs motion_defs Let_def
      obj_set_def aggregateSettled_def)

text \<open>
  C3, amended. A value is animatable when the key is not \<open>zIndex\<close> and the value is a
  number, an array, or a string that passes the complex-value test and does not start
  with \<open>url(\<close>. When the transition has no truthy \<open>immediate\<close>, and the origin
  \<open>getAnimation\<close> settles on or the target is not animatable, or the type of the value
  transition is \<open>false\<close>, \<open>push\<close> sets the value: after the call the MotionValue of
  the key holds the target, its handle is the one that does nothing, the engine has not
  been called, the promise of \<open>start\<close> and the caller's completion are settled, and
  the user's \<open>onComplete\<close> functions have been called, in order.
\<close>

theorem immediate_set_fallback:
  assumes "wellformed w" and "\<not> truthy (obj_get transition ''immediate'')"
    and "\<not> isAnimatable L key (animationOrigin L key (currentOf w key) target transition)
         \<or> \<not> isAnimatable L key target
         \<or> js_prop (getValueTransition transition key) ''type'' = Bool False"
  shows "(\<exists>a mv. map_of (motionValues (push L key target transition cb w)) key = Some a
            \<and> store (push L key target transition cb w) a = Some mv
            \<and> current mv = target \<and> stopAnimation mv = Some NoopStop)
     \<and> calls (push L key target transition cb w) = calls w
     \<and> engineCalls (push L key target transition cb w) = engineCalls w
     \<and> isSettled (push L key target transition cb w) (promises w)
     \<and> (\<forall>p. cb = Some (ResolvePromise p) \<longrightarrow>
            isSettled (push L key target transition cb w) p)
     \<and> invoked (push L key target transition cb w) =
         invoked w
         @ (if truthy (obj_get transition ''onComplete'')
            then [obj_get transition ''onComplete''] else [])
         @ (case cb of Some (UserFunction f) \<Rightarrow> if truthy f then [f] else [] | _ \<Rightarrow> [])
     \<and> (isAnimatable L k v \<longleftrightarrow>
          k \<noteq> ''zIndex''
          \<and> (isNumber v \<or> isArray v
              \<or> (\<exists>s. v = Str s \<and> complexTest L s \<and> \<not> startsWith ''url('' s)))"
proof -
  obtain a w1 where g: "get_value key (obj_get (motionProperties w) key) w = (a, w1)"
    by (cases "get_value key (obj_get (motionProperties w) key) w")
  note gp = get_value_props [OF assms(1) g]
  obtain mv where mv: "store w1 a = Some mv" and cur: "current mv = currentOf w key"
    using get_value_current [OF assms(1) g] by blast
  let ?an = "makeAnimation L key a target transition cb w1"
  have eq: "push L key target transition cb w = snd (mv_start a ?an w1)"
    using assms(2) g by (simp add: push_def)
  have an: "a_value ?an = a" "a_target ?an = target" "a_onComplete ?an = cb"
    "a_transition ?an = transition"
    by (simp_all add: makeAnimation_def Let_def)
  have strat: "a_strategy ?an = ImmediateSet"
    using assms(3) mv cur by (auto simp: makeAnimation_def getAnimation_def Let_def)
  note r = mv_start_immediate [OF mv an(1) strat]
  have val: "\<exists>a mv. map_of (motionValues (push L key target transition cb w)) key = Some a
            \<and> store (push L key target transition cb w) a = Some mv
            \<and> current mv = target \<and> stopAnimation mv = Some NoopStop"
    unfolding eq using gp(1) r(2) an(2) by simp
  have anim: "isAnimatable L k v \<longleftrightarrow>
          k \<noteq> ''zIndex''
          \<and> (isNumber v \<or> isArray v
              \<or> (\<exists>s. v = Str s \<and> complexTest L s \<and> \<not> startsWith ''url('' s))"
    by (cases v) (auto simp: isAnimatable_def isNumber_def isArray_def)
  have c: "calls (push L key target transition cb w) = calls w"
    unfolding eq using r(3) gp by simp
  have e: "engineCalls (push L key target transition cb w) = engineCalls w"
    unfolding eq using r(4) gp by simp
  have s1: "isSettled (push L key target transition cb w) (promises w)"
    unfolding eq using r(6) [of "promises w"] gp by simp
  have s2: "\<forall>p. cb = Some (ResolvePromise p) \<longrightarrow>
            isSettled (push L key target transition cb w) p"
    unfolding eq using r(6) an(3) by blast
  have i: "invoked (push L key target transition cb w) =
         invoked w
         @ (if truthy (obj_get transition ''onComplete'')
            then [obj_get transition ''onComplete''] else [])
         @ (case cb of Some (UserFunction f) \<Rightarrow> if truthy f then [f] else [] | _ \<Rightarrow> [])"
    unfolding eq r(7) an(3,4) using gp by simp
  show ?thesis
    using val c e s1 s2 i anim by blast
qed

theorem immediate_set_fallback_witness:
  "wellformed (newWorld [(''zIndex'', Num 1)])
   \<and> \<not> truthy (obj_get [] ''immediate'')
   \<and> \<not> isAnimatable \<lparr>complexTest = (\<lambda>s. False), complexNone = id, filterNone = id\<rparr>
         ''zIndex'' (Num 5)
   \<and> engineCalls (push \<lparr>complexTest = (\<lambda>s. False), complexNone = id, filterNone = id\<rparr>
         ''zIndex'' (Num 5) [] (Some (ResolvePromise 7)) (newWorld [(''zIndex'', Num 1)])) = 0
   \<and> isSettled (push \<lparr>complexTest = (\<lambda>s. False), complexNone = id, filterNone = id\<rparr>
         ''zIndex'' (Num 5) [] (Some (ResolvePromise 7)) (newWorld [(''zIndex'', Num 1)])) 7"
proof -
  let ?L = "\<lparr>complexTest = (\<lambda>s. False), complexNone = id, filterNone = id\<rparr>"
  have h1: "wellformed (newWorld [(''zIndex'', Num 1)])"
    by (simp add: wellformed_def newWorld_def)
  have h2: "\<not> truthy (obj_get [] ''immediate'')" by (simp add: obj_get_def)
  have h3: "\<not> isAnimatable ?L ''zIndex'' (Num 5)" by (simp add: isAnimatable_def)
  have e: "engineCalls (newWorld [(''zIndex'', Num 1)]) = 0" by (simp add: newWorld_def)
  from h3 have h3': "\<not> isAnimatable ?L ''zIndex''
           (animationOrigin ?L ''zIndex'' (currentOf (newWorld [(''zIndex'', Num 1)]) ''zIndex'')
              (Num 5) [])
         \<or> \<not> isAnimatable ?L ''zIndex'' (Num 5)
         \<or> js_prop (getValueTransition [] ''zIndex'') ''type'' = Bool False"
    by simp
  show ?thesis
    using h1 h2 h3 e
      immediate_set_fallback [OF h1 h2 h3', of "Some (ResolvePromise 7)"]
    by simp
qed

subsection \<open>leave (C6)\<close>

text \<open>
  C6. \<open>leave\<close> takes the variant named \<open>leave\<close>, or else the one named \<open>initial\<close>.
  With neither, \<open>done\<close> is called at once and nothing else changes. Otherwise the
  variant is applied and the call waits on the promises of that \<open>apply\<close>, \<open>done\<close> not
  yet called. Only the microtasks call \<open>done\<close> for a waiting \<open>leave\<close>: once for each
  that waits on promises all settled; the others keep waiting, and no other step of a
  task calls \<open>done\<close> or changes who waits.
\<close>

theorem leave_spec:
  "(map_of vs ''leave'' = None \<and> map_of vs ''initial'' = None \<longrightarrow>
      leave L vs w = Inr (w\<lparr>doneCalls := Suc (doneCalls w)\<rparr>))
   \<and> (map_of vs ''leave'' = Some v
       \<or> map_of vs ''leave'' = None \<and> map_of vs ''initial'' = Some v \<longrightarrow>
        (\<exists>ps w1. apply_variant L vs (Inline v) w = Inr (ps, w1)
           \<and> leave L vs w = Inr (w1\<lparr>awaiting := awaiting w1 @ [ps]\<rparr>)
           \<and> doneCalls w1 = doneCalls w \<and> awaiting w1 = awaiting w))
   \<and> doneCalls (run_microtasks u) =
       doneCalls u + length (filter (aggregateSettled u) (awaiting u))
   \<and> awaiting (run_microtasks u) = filter (\<lambda>ps. \<not> aggregateSettled u ps) (awaiting u)
   \<and> (act \<noteq> Leave \<and> exec L vs act u = Inr u' \<longrightarrow>
        doneCalls u' = doneCalls u \<and> awaiting u' = awaiting u)"
proof -
  have none: "map_of vs ''leave'' = None \<and> map_of vs ''initial'' = None \<longrightarrow>
      leave L vs w = Inr (w\<lparr>doneCalls := Suc (doneCalls w)\<rparr>)"
    by (simp add: leave_def)
  have some: "\<exists>ps w1. apply_variant L vs (Inline v) w = Inr (ps, w1)
           \<and> leave L vs w = Inr (w1\<lparr>awaiting := awaiting w1 @ [ps]\<rparr>)
           \<and> doneCalls w1 = doneCalls w \<and> awaiting w1 = awaiting w"
    if "map_of vs ''leave'' = Some v
       \<or> map_of vs ''leave'' = None \<and> map_of vs ''initial'' = Some v"
  proof -
    obtain ps w1 where ae: "apply_entries L v v w = (ps, w1)"
      by (cases "apply_entries L v v w")
    have "apply_variant L vs (Inline v) w = Inr (ps, w1)"
      using ae by (simp add: apply_variant_def)
    moreover have "leave L vs w = Inr (w1\<lparr>awaiting := awaiting w1 @ [ps]\<rparr>)"
      using that ae by (auto simp: leave_def apply_variant_def)
    ultimately show ?thesis using done_apply_entries [OF ae] by blast
  qed
  show ?thesis
    using none some run_microtasks_done(1,2) [of u] done_exec [of act L vs u u'] by blast
qed

theorem leave_spec_witness:
  "map_of [(''initial'', [(''opacity'', Num 0)]), (''enter'', [(''opacity'', Num 1)])]
     ''leave'' = None
   \<and> map_of [(''initial'', [(''opacity'', Num 0)]), (''enter'', [(''opacity'', Num 1)])]
     ''initial'' = Some [(''opacity'', Num 0)]
   \<and> (\<exists>ps w1.
        apply_variant \<lparr>complexTest = (\<lambda>s. False), complexNone = id, filterNone = id\<rparr>
          [(''initial'', [(''opacity'', Num 0)]), (''enter'', [(''opacity'', Num 1)])]
          (Inline [(''opacity'', Num 0)]) (newWorld [(''opacity'', Num 1)]) = Inr (ps, w1)
        \<and> leave \<lparr>complexTest = (\<lambda>s. False), complexNone = id, filterNone = id\<rparr>
            [(''initial'', [(''opacity'', Num 0)]), (''enter'', [(''opacity'', Num 1)])]
            (newWorld [(''opacity'', Num 1)]) = Inr (w1\<lparr>awaiting := awaiting w1 @ [ps]\<rparr>)
        \<and> doneCalls w1 = 0)
   \<and> leave \<lparr>complexTest = (\<lambda>s. False), complexNone = id, filterNone = id\<rparr>
        [(''enter'', [(''opacity'', Num 1)])] (newWorld [])
      = Inr ((newWorld [])\<lparr>doneCalls := Suc 0\<rparr>)"
proof -
  let ?L = "\<lparr>complexTest = (\<lambda>s. False), complexNone = id, filterNone = id\<rparr>"
  let ?vs = "[(''initial'', [(''opacity'', Num 0)]), (''enter'', [(''opacity'', Num 1)])]"
  have a: "map_of ?vs ''leave'' = None" and b: "map_of ?vs ''initial'' = Some [(''opacity'', Num 0)]"
    by simp_all
  have c: "map_of [(''enter'', [(''opacity'', Num 1)])] ''leave'' = None"
    and d: "map_of [(''enter'', [(''opacity'', Num 1)])] ''initial'' = None"
    by simp_all
  have z: "doneCalls (newWorld bag) = 0" for bag by (simp add: newWorld_def)
  have first: "\<exists>ps w1.
        apply_variant ?L ?vs (Inline [(''opacity'', Num 0)]) (newWorld [(''opacity'', Num 1)])
          = Inr (ps, w1)
        \<and> leave ?L ?vs (newWorld [(''opacity'', Num 1)])
            = Inr (w1\<lparr>awaiting := awaiting w1 @ [ps]\<rparr>)
        \<and> doneCalls w1 = 0"
    using a b z
      leave_spec [where vs = ?vs and v = "[(''opacity'', Num 0)]" and L = ?L
        and w = "newWorld [(''opacity'', Num 1)]" and u = "newWorld []" and act = Leave
        and u' = "newWorld []"]
    by auto
  have second: "leave ?L [(''enter'', [(''opacity'', Num 1)])] (newWorld [])
      = Inr ((newWorld [])\<lparr>doneCalls := Suc 0\<rparr>)"
    using c d z
      leave_spec [where vs = "[(''enter'', [(''opacity'', Num 1)])]" and L = ?L
        and w = "newWorld []" and u = "newWorld []" and act = Leave and u' = "newWorld []"]
    by simp
  show ?thesis using a b first second by blast
qed

subsection \<open>Reading back a serialized transform (C7)\<close>

text \<open>
  What the \<open>translate3d\<close> branch of \<open>stateFromTransform\<close> does with every value:
  an array reads as its first number, and only 0 passes.
\<close>

lemma translate3d_entry:
  "stateEntries state ((''translate3d'', v) # rest) =
     (if parseFloat v = Num 0
      then stateEntries
             (obj_set (obj_set (obj_set state ''x'' (Num 0)) ''y'' (Num 0)) ''z'' (Num 0)) rest
      else Inl TypeError)"
  by (simp add: Let_def)

text \<open>Without hardware acceleration a state of x and rotate is read back as it was.\<close>

lemma roundtrip_without_acceleration_example:
  "stateFromTransform []
     (reactiveTransform \<lparr>numberToString = integerString, colorTransform = id\<rparr> False
        [(''x'', Num 10), (''rotate'', Num 5)])
   = Inr [(''x'', Num 10), (''rotate'', Num 5)]"
  by (simp add: transform_defs read_defs parse_defs)

text \<open>
  C7, on the code. With hardware acceleration, the default, the state \<open>{x: 10}\<close> is
  serialized as \<open>translate3d(10px,0px,0px)\<close>, and reading that string back throws: the
  parsed array has become the number 10 when \<open>forEach\<close> is called on it. The state
  \<open>{y: 5}\<close> is read back with x, y and z all 0.
\<close>

theorem roundtrip_translate3d_fails:
  "reactiveTransform \<lparr>numberToString = integerString, colorTransform = id\<rparr> True
     [(''x'', Num 10)] = ''translate3d(10px,0px,0px)''
   \<and> stateFromTransform []
       (reactiveTransform \<lparr>numberToString = integerString, colorTransform = id\<rparr> True
          [(''x'', Num 10)]) = Inl TypeError
   \<and> stateFromTransform []
       (reactiveTransform \<lparr>numberToString = integerString, colorTransform = id\<rparr> True
          [(''y'', Num 5)]) = Inr [(''x'', Num 0), (''y'', Num 0), (''z'', Num 0)]"
  by (simp add: transform_defs read_defs parse_defs)

theorem roundtrip_translate3d_fails_witness:
  "stateFromTransform []
       (reactiveTransform \<lparr>numberToString = integerString, colorTransform = id\<rparr> True
          [(''x'', Num 10)]) = Inl TypeError"
  using roundtrip_translate3d_fails by blast

subsection \<open>The order of the serialized transform (C8)\<close>

text \<open>
  C8 as stated fails: a state with rotate before scale is serialized with rotate before
  scale, and a state whose x and y are set to 0 gets no \<open>translate3d\<close> term.
\<close>

theorem transform_fixed_order_counterexample:
  "reactiveTransform \<lparr>numberToString = integerString, colorTransform = id\<rparr> True
     [(''rotate'', Num 5), (''scale'', Num 2)] = ''rotate(5deg) scale(2) translateZ(0px)''
   \<and> reactiveTransform \<lparr>numberToString = integerString, colorTransform = id\<rparr> True
     [(''x'', Num 0), (''y'', Num 0)] = ''translateZ(0px)''"
  by (simp add: transform_defs parse_defs)

text \<open>
  C8, amended. The transform string lists the entries of the state in the state's own
  order, each as \<open>name(value)\<close> followed by a space, with x, y, z named
  \<open>translateX\<close>, \<open>translateY\<close>, \<open>translateZ\<close> and a number written in the unit of its
  property (pixels for x, y, z). With hardware acceleration the entries x, y, z are left
  out of that list; when one of them is truthy, one \<open>translate3d\<close> term of the three
  in pixels, 0 for an axis that is absent or falsy, leads the string; when none is, a
  \<open>translateZ(0px)\<close> term ends it. The string is trimmed.
\<close>

theorem reactiveTransform_structure:
  "reactiveTransform R hw st =
     trim
       ((if hw \<and> (truthy (obj_get st ''x'') \<or> truthy (obj_get st ''y'')
                   \<or> truthy (obj_get st ''z''))
         then ''translate3d('' @ toStr R (js_or (obj_get st ''x'') (Num 0)) @ ''px,''
              @ toStr R (js_or (obj_get st ''y'') (Num 0)) @ ''px,''
              @ toStr R (js_or (obj_get st ''z'') (Num 0)) @ ''px) ''
         else [])
        @ concat (map (\<lambda>(k, v). translateAlias k @ ''(''
                          @ toStr R (getValueAsType R v (getValueType k)) @ '') '')
                    (filter (\<lambda>(k, v). \<not> (hw \<and> (k = ''x'' \<or> k = ''y'' \<or> k = ''z''))) st))
        @ (if hw \<and> \<not> (truthy (obj_get st ''x'') \<or> truthy (obj_get st ''y'')
                        \<or> truthy (obj_get st ''z''))
           then ''translateZ(0px) '' else []))
   \<and> translateAlias ''x'' = ''translateX'' \<and> translateAlias ''y'' = ''translateY''
   \<and> translateAlias ''z'' = ''translateZ''
   \<and> getValueAsType R (Num r) (getValueType ''x'') = Str (numberToString R r @ ''px'')
   \<and> getValueAsType R (Num r) (getValueType ''y'') = Str (numberToString R r @ ''px'')
   \<and> getValueAsType R (Num r) (getValueType ''z'') = Str (numberToString R r @ ''px'')"
  by (simp add: reactiveTransform_def terms_append Let_def join_def translateAlias_def
      getValueAsType_def getValueType_def valueTypes_def typeTransform_def isNumber_def)

theorem reactiveTransform_structure_witness:
  "reactiveTransform \<lparr>numberToString = integerString, colorTransform = id\<rparr> True
     [(''scale'', Num 2), (''x'', Num 10), (''rotate'', Num 5)]
   = ''translate3d(10px,0px,0px) scale(2) rotate(5deg)''"
  using reactiveTransform_structure
    [of "\<lparr>numberToString = integerString, colorTransform = id\<rparr>" True
        "[(''scale'', Num 2), (''x'', Num 10), (''rotate'', Num 5)]"]
  by (simp add: transform_defs parse_defs)

subsection \<open>Immediate transitions (C10)\<close>

text \<open>
  C10. \<open>push\<close> with a transition whose \<open>immediate\<close> entry is truthy writes the target
  into the MotionValue of the key and returns: the engine is not called, no animation is
  started or cancelled, the handle of an animation in flight on that value stays, nothing
  is settled and no user function is called. The completion callback is dropped: a
  promise it would resolve, out of reach before the call, stays unsettled through every
  later run of tasks; so do all the promises of an \<open>apply\<close> whose variant carries
  \<open>transition.immediate\<close>.
\<close>

theorem push_immediate_sets_only:
  assumes "wellformed w" and "truthy (obj_get transition ''immediate'')"
  shows "(\<exists>a mv. map_of (motionValues (push L key v transition cb w)) key = Some a
            \<and> store (push L key v transition cb w) a = Some mv \<and> current mv = v
            \<and> (\<forall>mv0. map_of (motionValues w) key = Some a \<and> store w a = Some mv0 \<longrightarrow>
                  stopAnimation mv = stopAnimation mv0))
     \<and> calls (push L key v transition cb w) = calls w
     \<and> engineCalls (push L key v transition cb w) = engineCalls w
     \<and> running (push L key v transition cb w) = running w
     \<and> settled (push L key v transition cb w) = settled w
     \<and> invoked (push L key v transition cb w) = invoked w
     \<and> microtasks (push L key v transition cb w) = microtasks w
     \<and> reactions (push L key v transition cb w) = reactions w
     \<and> (\<forall>p. cb = Some (ResolvePromise p) \<and> unreachable w p \<longrightarrow>
            \<not> isSettled (run_tasks L vs tasks (push L key v transition cb w)) p)
     \<and> (\<forall>variant ps u.
            truthy (js_prop (obj_get variant ''transition'') ''immediate'')
            \<and> apply_variant L vs (Inline variant) w = Inr (ps, u) \<longrightarrow>
            (\<forall>p \<in> set ps. \<not> isSettled (run_tasks L vs tasks u) p))"
proof -
  obtain a w1 where g: "get_value key (obj_get (motionProperties w) key) w = (a, w1)"
    by (cases "get_value key (obj_get (motionProperties w) key) w")
  note eq = push_immediate_eq [OF assms(2) g]
  note gp = get_value_props [OF assms(1) g]
  obtain mv1 where mv1: "store w1 a = Some mv1" using gp(2) by blast
  have st: "store (mv_set a v w1) a = Some (updateAndNotify (frame w1) v mv1)"
    using mv1 by (rule mv_set_store)
  have keep: "stopAnimation (updateAndNotify (frame w1) v mv1) = stopAnimation mv0"
    if "map_of (motionValues w) key = Some a" "store w a = Some mv0" for mv0
    using gp(3) [OF that(1)] that(2) mv1 by simp
  have part1: "\<exists>a mv. map_of (motionValues (push L key v transition cb w)) key = Some a
            \<and> store (push L key v transition cb w) a = Some mv \<and> current mv = v
            \<and> (\<forall>mv0. map_of (motionValues w) key = Some a \<and> store w a = Some mv0 \<longrightarrow>
                  stopAnimation mv = stopAnimation mv0)"
    unfolding eq using gp(1) st keep by (auto simp: mv_set_fields)
  have part2: "\<forall>p. cb = Some (ResolvePromise p) \<and> unreachable w p \<longrightarrow>
            \<not> isSettled (run_tasks L vs tasks (push L key v transition cb w)) p"
    using unreachable_push_immediate [OF _ assms(2)] unreachable_never_settles by blast
  have part3: "\<forall>variant ps u.
            truthy (js_prop (obj_get variant ''transition'') ''immediate'')
            \<and> apply_variant L vs (Inline variant) w = Inr (ps, u) \<longrightarrow>
            (\<forall>p \<in> set ps. \<not> isSettled (run_tasks L vs tasks u) p)"
    using apply_entries_immediate [OF assms(1)] unreachable_never_settles
    by (auto simp: apply_variant_def)
  show ?thesis
    using part1 part2 part3 unfolding eq by (simp add: mv_set_fields gp)
qed

theorem push_immediate_sets_only_witness:
  "wellformed (newWorld [(''opacity'', Num 0)])
   \<and> truthy (obj_get [(''immediate'', Bool True)] ''immediate'')
   \<and> engineCalls (push \<lparr>complexTest = (\<lambda>s. False), complexNone = id, filterNone = id\<rparr>
        ''opacity'' (Num 1) [(''immediate'', Bool True)] None
        (newWorld [(''opacity'', Num 0)])) = 0
   \<and> settled (push \<lparr>complexTest = (\<lambda>s. False), complexNone = id, filterNone = id\<rparr>
        ''opacity'' (Num 1) [(''immediate'', Bool True)] None
        (newWorld [(''opacity'', Num 0)])) = []"
proof -
  have h1: "wellformed (newWorld [(''opacity'', Num 0)])"
    by (simp add: wellformed_def newWorld_def)
  have h2: "truthy (obj_get [(''immediate'', Bool True)] ''immediate'')"
    by (simp add: obj_get_def)
  have "engineCalls (newWorld [(''opacity'', Num 0)]) = 0"
    and "settled (newWorld [(''opacity'', Num 0)]) = []"
    by (simp_all add: newWorld_def)
  then show ?thesis
    using h1 h2
      push_immediate_sets_only [OF h1 h2,
        of "\<lparr>complexTest = (\<lambda>s. False), complexNone = id, filterNone = id\<rparr>"
           "''opacity''" "Num 1" None]
    by simp
qed

end
